theory Spec2Isabelle
  imports
    Main
    "HOL-Library.AList"
    "HOL-Library.Sublist"
    "HOL-Library.Char_ord"
    "HOL-Library.List_Lexorder"
begin

section \<open>Decoded JSON and assignment rows\<close>

text \<open>
  Both programs keep their state in \<^verbatim>\<open>assignments.json\<close> and work on what
  \<^verbatim>\<open>json.load\<close> returns. A decoded value is one of the constructors below; an
  object is an association list in insertion order, as a Python \<^verbatim>\<open>dict\<close> is.
  Numbers are integers here: non-integer JSON numbers are not represented.
\<close>

datatype json =
    JNull
  | JBool bool
  | JInt int
  | JStr string
  | JList "json list"
  | JObj "(string \<times> json) list"

text \<open>Python's truth test on a decoded value (\<^verbatim>\<open>if x:\<close>, \<^verbatim>\<open>not x\<close>).\<close>

fun truthy :: "json \<Rightarrow> bool" where
  "truthy JNull = False"
| "truthy (JBool b) = b"
| "truthy (JInt n) = (n \<noteq> 0)"
| "truthy (JStr s) = (s \<noteq> [])"
| "truthy (JList xs) = (xs \<noteq> [])"
| "truthy (JObj kvs) = (kvs \<noteq> [])"

text \<open>
  A row of the \<^verbatim>\<open>assignments\<close> array is a \<^verbatim>\<open>dict\<close>. The code keys rows by
  \<^verbatim>\<open>row["canvas_id"]\<close> in a \<^verbatim>\<open>dict[int, dict]\<close>, so that entry is kept apart
  with the type the code gives it: \<open>canvas_id r = None\<close> is \<^verbatim>\<open>"canvas_id" not in row\<close>.
  Every other key of the row is in \<open>items\<close>, in the dict's order.
\<close>

record row =
  canvas_id :: "int option"
  items :: "(string \<times> json) list"

text \<open>\<^verbatim>\<open>row.get(k)\<close>; \<open>None\<close> is Python's \<^verbatim>\<open>None\<close> for a missing key.\<close>

definition get :: "row \<Rightarrow> string \<Rightarrow> json option" where
  "get r k = map_of (items r) k"

text \<open>\<^verbatim>\<open>row[k] = v\<close>: an existing key keeps its place, a new key goes last.\<close>

definition put :: "row \<Rightarrow> string \<Rightarrow> json \<Rightarrow> row" where
  "put r k v = r\<lparr>items := AList.update k v (items r)\<rparr>"

text \<open>The truth value of \<^verbatim>\<open>row.get(k)\<close>.\<close>

definition is_set :: "row \<Rightarrow> string \<Rightarrow> bool" where
  "is_set r k = (case get r k of None \<Rightarrow> False | Some v \<Rightarrow> truthy v)"

text \<open>
  The file \<^verbatim>\<open>assignments.json\<close>: absent, not readable as JSON, or a JSON object with
  its \<^verbatim>\<open>assignments\<close> array (when it has the key) and its other keys.
\<close>

record document =
  assignments :: "row list option"
  other_keys :: "(string \<times> json) list"

datatype data_file = Missing | Corrupt | Document document

section \<open>canvas_sync.py: merging Canvas rows into the local rows\<close>

text \<open>
  An element of \<^verbatim>\<open>canvas_upcoming\<close>: the dict built at lines 181-186 of
  \<^verbatim>\<open>canvas_sync.py\<close>, with the Canvas id, the assignment name, the course name
  and the local due date as \<^verbatim>\<open>YYYY-MM-DD\<close>.
\<close>

record upcoming =
  ca_canvas_id :: int
  ca_title :: string
  ca_course :: string
  ca_due_date :: string

text \<open>
  \<^verbatim>\<open>new_canvas_rows\<close> holds references: a row taken from \<^verbatim>\<open>by_canvas_id\<close> is the
  same object as the dict's value and as every earlier append of it, so a later
  assignment to it shows in all of them. \<open>Ref cid\<close> is the object stored under
  \<open>cid\<close> in \<^verbatim>\<open>by_canvas_id\<close>; \<open>Fresh r\<close> is a dict literal built by this run.
\<close>

datatype entry = Ref int | Fresh row

record merge_state =
  by_canvas_id :: "(int \<times> row) list"
  new_canvas_rows :: "entry list"
  processed_ids :: "int set"
  added :: nat
  updated :: nat
  removed :: nat
  auto_completed :: nat

text \<open>
  Lines 223-227: rows with a \<^verbatim>\<open>canvas_id\<close> go into the dict (a later row with the
  same id replaces the value and keeps the key's place), the others into \<^verbatim>\<open>manual\<close>.
\<close>

fun separate :: "row list \<Rightarrow> row list \<Rightarrow> (int \<times> row) list \<Rightarrow> row list \<times> (int \<times> row) list" where
  "separate [] manual by_id = (manual, by_id)"
| "separate (r # rs) manual by_id =
     (case canvas_id r of
        Some cid \<Rightarrow> separate rs manual (AList.update cid r by_id)
      | None \<Rightarrow> separate rs (manual @ [r]) by_id)"

text \<open>
  The dict literal of lines 254-263. \<open>uid\<close> is the string \<^verbatim>\<open>str(uuid.uuid4())\<close>
  returned at this call.
\<close>

definition new_row :: "string \<Rightarrow> upcoming \<Rightarrow> row" where
  "new_row uid ca =
     \<lparr>canvas_id = Some (ca_canvas_id ca),
      items =
        [(''id'', JStr uid),
         (''title'', JStr (ca_title ca)),
         (''course'', JStr (ca_course ca)),
         (''due_date'', JStr (ca_due_date ca)),
         (''notifications_sent'', JList []),
         (''source'', JStr ''canvas''),
         (''completed'', JBool False)]\<rparr>"

text \<open>Lines 245-248: the four assignments to an existing row.\<close>

definition refresh :: "upcoming \<Rightarrow> row \<Rightarrow> row" where
  "refresh ca r =
     put (put (put (put r ''title'' (JStr (ca_title ca)))
                   ''course'' (JStr (ca_course ca)))
              ''due_date'' (JStr (ca_due_date ca)))
         ''source'' (JStr ''canvas'')"

text \<open>
  One iteration of the loop at lines 235-264. \<open>uuid4 n\<close> is the result of the
  \<open>n\<close>-th call of \<^verbatim>\<open>uuid.uuid4\<close> in this run; the loop has made \<open>added st\<close>
  calls before this iteration. The assignments to the row are written back to
  \<open>by_canvas_id\<close>, where the object lives.
\<close>

definition upcoming_step :: "(nat \<Rightarrow> string) \<Rightarrow> merge_state \<Rightarrow> upcoming \<Rightarrow> merge_state" where
  "upcoming_step uuid4 st0 ca =
     (let cid = ca_canvas_id ca;
          st = st0\<lparr>processed_ids := insert cid (processed_ids st0)\<rparr>
      in case map_of (by_canvas_id st) cid of
           Some r \<Rightarrow>
             (let changed =
                    (get r ''title'' \<noteq> Some (JStr (ca_title ca)) \<or>
                     get r ''course'' \<noteq> Some (JStr (ca_course ca)) \<or>
                     get r ''due_date'' \<noteq> Some (JStr (ca_due_date ca)))
              in st\<lparr>by_canvas_id := AList.update cid (refresh ca r) (by_canvas_id st),
                     new_canvas_rows := new_canvas_rows st @ [Ref cid],
                     updated := (if changed then updated st + 1 else updated st)\<rparr>)
         | None \<Rightarrow>
             st\<lparr>new_canvas_rows := new_canvas_rows st @ [Fresh (new_row (uuid4 (added st)) ca)],
                  added := added st + 1\<rparr>)"

text \<open>
  One iteration of the loop at lines 267-282, for the item \<open>(cid, r)\<close> of
  \<^verbatim>\<open>by_canvas_id.items()\<close>.
\<close>

definition leftover_step :: "int set \<Rightarrow> merge_state \<Rightarrow> int \<times> row \<Rightarrow> merge_state" where
  "leftover_step submitted_canvas_ids st item =
     (case item of (cid, r) \<Rightarrow>
        if cid \<in> processed_ids st then st
        else if cid \<in> submitted_canvas_ids then
          (if \<not> is_set r ''completed'' then
             st\<lparr>by_canvas_id := AList.update cid (put r ''completed'' (JBool True)) (by_canvas_id st),
                  auto_completed := auto_completed st + 1,
                  new_canvas_rows := new_canvas_rows st @ [Ref cid]\<rparr>
           else st\<lparr>new_canvas_rows := new_canvas_rows st @ [Ref cid]\<rparr>)
        else if is_set r ''completed'' then
          st\<lparr>new_canvas_rows := new_canvas_rows st @ [Ref cid]\<rparr>
        else st\<lparr>removed := removed st + 1\<rparr>)"

text \<open>The rows that the references of \<^verbatim>\<open>new_canvas_rows\<close> denote when the list is saved.\<close>

fun deref :: "(int \<times> row) list \<Rightarrow> entry \<Rightarrow> row list" where
  "deref by_id (Fresh r) = [r]"
| "deref by_id (Ref cid) = (case map_of by_id cid of Some r \<Rightarrow> [r] | None \<Rightarrow> [])"

definition deref_all :: "(int \<times> row) list \<Rightarrow> entry list \<Rightarrow> row list" where
  "deref_all by_id es = concat (map (deref by_id) es)"

text \<open>
  Lines 217-285 of \<^verbatim>\<open>sync\<close>, from the loaded rows to the list handed to
  \<^verbatim>\<open>_save_assignments\<close>, with the final counters. The second loop runs over the items
  of \<^verbatim>\<open>by_canvas_id\<close>; it assigns to values only, each at its own item, so the items
  are those the dict has when the loop starts.
\<close>

definition merge_loops :: "(nat \<Rightarrow> string) \<Rightarrow> upcoming list \<Rightarrow> int set \<Rightarrow> (int \<times> row) list \<Rightarrow> merge_state" where
  "merge_loops uuid4 canvas_upcoming submitted_canvas_ids by_id =
     (let st0 = \<lparr>by_canvas_id = by_id, new_canvas_rows = [], processed_ids = {},
                 added = 0, updated = 0, removed = 0, auto_completed = 0\<rparr>;
          st1 = foldl (upcoming_step uuid4) st0 canvas_upcoming
      in foldl (leftover_step submitted_canvas_ids) st1 (by_canvas_id st1))"

definition merge :: "(nat \<Rightarrow> string) \<Rightarrow> upcoming list \<Rightarrow> int set \<Rightarrow> row list \<Rightarrow> row list \<times> merge_state" where
  "merge uuid4 canvas_upcoming submitted_canvas_ids existing =
     (case separate existing [] [] of (manual, by_id) \<Rightarrow>
        (let st = merge_loops uuid4 canvas_upcoming submitted_canvas_ids by_id
         in (manual @ deref_all (by_canvas_id st) (new_canvas_rows st), st)))"

section \<open>Exceptions\<close>

text \<open>
  The exceptions the two scripts can end with. \<^verbatim>\<open>_get_all\<close> turns the transport's
  errors into \<^verbatim>\<open>RuntimeError\<close> with one of three messages; the message is kept
  by its parts. \<open>OtherError\<close> is any exception raised by the libraries that the
  scripts neither raise themselves nor catch.
\<close>

datatype runtime_error =
    TokenInvalid
  | CanvasHTTP int string
  | Unreachable string string

datatype exn =
    RuntimeError runtime_error
  | KeyError string
  | TypeError
  | AttributeError
  | OtherError

section \<open>canvas_sync.py: fetching from Canvas\<close>

text \<open>
  What \<^verbatim>\<open>urlopen\<close>, \<^verbatim>\<open>resp.read\<close> and \<^verbatim>\<open>json.loads\<close> give for one request: an
  \<^verbatim>\<open>HTTPError\<close> with its code and reason, a \<^verbatim>\<open>URLError\<close> with its reason, any
  other exception, or the decoded page with the value of the \<^verbatim>\<open>Link\<close> header (empty
  when the header is absent). A page that is a list holds its elements, \<open>None\<close> for
  an element that is not a dict; the dicts are decoded at the keys the code reads.
\<close>

datatype 'a page = Page_List "'a option list" | Page_Other

datatype 'a reply =
    HTTPError int string
  | URLError string
  | Failed
  | Response "'a page" string

text \<open>
  A course and an assignment as the Canvas API returns them, at the keys read by
  \<^verbatim>\<open>sync\<close>; \<open>None\<close> is a missing key. Ids are integers, names and dates strings.
\<close>

record course =
  course_id :: "int option"
  course_name :: "string option"
  course_code :: "string option"

record assignment =
  assignment_id :: "int option"
  assignment_name :: "string option"
  due_at :: "string option"

text \<open>Python's \<^verbatim>\<open>str.strip()\<close>, \<^verbatim>\<open>str.strip(chars)\<close>, \<^verbatim>\<open>str.rstrip(chars)\<close> and \<^verbatim>\<open>str.split(c)\<close>.\<close>

definition whitespace :: "char set" where
  "whitespace = {CHR 0x09, CHR 0x0A, CHR 0x0B, CHR 0x0C, CHR 0x0D, CHR 0x1C, CHR 0x1D,
                 CHR 0x1E, CHR 0x1F, CHR 0x20, CHR 0x85, CHR 0xA0}"

definition rstrip_chars :: "char set \<Rightarrow> string \<Rightarrow> string" where
  "rstrip_chars cs s = rev (dropWhile (\<lambda>c. c \<in> cs) (rev s))"

definition strip_chars :: "char set \<Rightarrow> string \<Rightarrow> string" where
  "strip_chars cs s = rstrip_chars cs (dropWhile (\<lambda>c. c \<in> cs) s)"

fun split :: "char \<Rightarrow> string \<Rightarrow> string list" where
  "split c [] = [[]]"
| "split c (x # xs) =
     (if x = c then [] # split c xs
      else (case split c xs of [] \<Rightarrow> [[x]] | p # ps \<Rightarrow> (x # p) # ps))"

text \<open>
  Lines 60-66: the URL of the next page, from the first part of the \<^verbatim>\<open>Link\<close> header
  that contains \<^verbatim>\<open>rel="next"\<close>; \<open>None\<close> when no part does.
\<close>

definition next_url :: "string \<Rightarrow> string option" where
  "next_url link_header =
     (case find (\<lambda>part. sublist (''rel='' @ [CHR 0x22] @ ''next'' @ [CHR 0x22]) part)
                (map (strip_chars whitespace) (split CHR '','' link_header)) of
        None \<Rightarrow> None
      | Some part \<Rightarrow>
          Some (strip_chars {CHR ''<'', CHR ''>''}
                  (strip_chars whitespace (takeWhile (\<lambda>c. c \<noteq> CHR '';'') part))))"

text \<open>
  The loop of \<^verbatim>\<open>_get_all\<close> (lines 52-79). \<open>urlopen w url token\<close> is the reply to the
  request for \<open>url\<close> with the bearer token in the state \<open>w\<close> of the outside world, and
  the state after it. The loop ends when \<^verbatim>\<open>url\<close> is \<^verbatim>\<open>None\<close> or empty; it need not
  end, and then the result is \<open>None\<close>.
\<close>

partial_function (option) get_pages ::
  "('w \<Rightarrow> string \<Rightarrow> string \<Rightarrow> 'a reply \<times> 'w) \<Rightarrow> string \<Rightarrow> string \<Rightarrow> 'a option list \<Rightarrow>
   string option \<Rightarrow> 'w \<Rightarrow> ((exn + 'a option list) \<times> 'w) option" where
  "get_pages urlopen base_url token results url w =
     (case url of
        None \<Rightarrow> Some (Inr results, w)
      | Some u \<Rightarrow>
          if u = [] then Some (Inr results, w)
          else
            (case urlopen w u token of
               (HTTPError code reason, w') \<Rightarrow>
                 if code = 401 then Some (Inl (RuntimeError TokenInvalid), w')
                 else Some (Inl (RuntimeError (CanvasHTTP code reason)), w')
             | (URLError reason, w') \<Rightarrow> Some (Inl (RuntimeError (Unreachable base_url reason)), w')
             | (Failed, w') \<Rightarrow> Some (Inl OtherError, w')
             | (Response page link_header, w') \<Rightarrow>
                 get_pages urlopen base_url token
                   (case page of Page_List xs \<Rightarrow> results @ xs | Page_Other \<Rightarrow> results)
                   (next_url link_header) w'))"

definition get_all ::
  "('w \<Rightarrow> string \<Rightarrow> string \<Rightarrow> 'a reply \<times> 'w) \<Rightarrow> string \<Rightarrow> string \<Rightarrow> string \<Rightarrow> 'w \<Rightarrow>
   ((exn + 'a option list) \<times> 'w) option" where
  "get_all urlopen base_url token path w =
     get_pages urlopen base_url token [] (Some (base_url @ path)) w"

text \<open>
  \<^verbatim>\<open>canvas_config.json\<close> at the two keys read: \<open>None\<close> for the file is a file that
  cannot be opened or decoded, \<open>None\<close> for a key is a missing key.
\<close>

record config =
  canvas_url :: "string option"
  token :: "string option"

definition load_config :: "config option \<Rightarrow> exn + string \<times> string" where
  "load_config file =
     (case file of
        None \<Rightarrow> Inl OtherError
      | Some cfg \<Rightarrow>
          (case canvas_url cfg of
             None \<Rightarrow> Inl (KeyError ''canvas_url'')
           | Some u \<Rightarrow>
               (case token cfg of
                  None \<Rightarrow> Inl (KeyError ''token'')
                | Some t \<Rightarrow> Inr (rstrip_chars {CHR ''/''} u, t))))"

text \<open>\<^verbatim>\<open>str(n)\<close> for an integer, as the f-strings format a course id.\<close>

fun digits :: "nat \<Rightarrow> string" where
  "digits n = (if n < 10 then [char_of (48 + n)] else digits (n div 10) @ [char_of (48 + n mod 10)])"

declare digits.simps [simp del]

definition str_int :: "int \<Rightarrow> string" where
  "str_int i = (if i < 0 then CHR ''-'' # digits (nat (- i)) else digits (nat i))"

definition courses_path :: string where
  "courses_path =
     ''/api/v1/courses?enrollment_state=active&enrollment_type=student&state[]=available&per_page=50''"

definition bucket_path :: "int \<Rightarrow> string \<Rightarrow> string" where
  "bucket_path cid query = ''/api/v1/courses/'' @ str_int cid @ ''/assignments?bucket='' @ query"

text \<open>
  Lines 146-154: the dict from course id to course name, in insertion order. An
  element that is not a dict, or whose id is missing or zero, is skipped.
\<close>

definition course_label :: "int \<Rightarrow> course \<Rightarrow> string" where
  "course_label cid c =
     (case course_name c of
        Some n \<Rightarrow> if n \<noteq> [] then n
                  else (case course_code c of
                          Some k \<Rightarrow> if k \<noteq> [] then k else ''Course '' @ str_int cid
                        | None \<Rightarrow> ''Course '' @ str_int cid)
      | None \<Rightarrow> (case course_code c of
                   Some k \<Rightarrow> if k \<noteq> [] then k else ''Course '' @ str_int cid
                 | None \<Rightarrow> ''Course '' @ str_int cid))"

fun build_course_map :: "course option list \<Rightarrow> (int \<times> string) list \<Rightarrow> (int \<times> string) list" where
  "build_course_map [] course_map = course_map"
| "build_course_map (None # cs) course_map = build_course_map cs course_map"
| "build_course_map (Some c # cs) course_map =
     (case course_id c of
        None \<Rightarrow> build_course_map cs course_map
      | Some cid \<Rightarrow>
          if cid = 0 then build_course_map cs course_map
          else build_course_map cs (AList.update cid (course_label cid c) course_map))"

text \<open>
  \<^verbatim>\<open>_parse_due_date\<close>. \<open>local_day s\<close> is the local calendar day, as \<^verbatim>\<open>YYYY-MM-DD\<close>,
  of the timestamp \<open>s\<close> (\<^verbatim>\<open>datetime.fromisoformat\<close>, \<^verbatim>\<open>astimezone\<close>, \<^verbatim>\<open>strftime\<close>),
  or \<open>None\<close> when parsing raises \<^verbatim>\<open>ValueError\<close> or \<^verbatim>\<open>TypeError\<close>.
\<close>

definition replace_Z :: "string \<Rightarrow> string" where
  "replace_Z s = concat (map (\<lambda>c. if c = CHR ''Z'' then ''+00:00'' else [c]) s)"

definition parse_due_date :: "(string \<Rightarrow> string option) \<Rightarrow> string option \<Rightarrow> string option" where
  "parse_due_date local_day due =
     (case due of
        None \<Rightarrow> None
      | Some s \<Rightarrow> if s = [] then None else local_day (replace_Z s))"

text \<open>
  The loop at lines 173-186 over one course's upcoming page elements, appending to
  \<^verbatim>\<open>canvas_upcoming\<close>. \<^verbatim>\<open>a["id"]\<close> raises \<^verbatim>\<open>KeyError\<close> when the key is missing.
\<close>

fun collect_upcoming ::
  "(string \<Rightarrow> string option) \<Rightarrow> string \<Rightarrow> string \<Rightarrow> assignment option list \<Rightarrow> upcoming list \<Rightarrow>
   exn + upcoming list" where
  "collect_upcoming local_day today_str cname [] canvas_upcoming = Inr canvas_upcoming"
| "collect_upcoming local_day today_str cname (None # raw) canvas_upcoming =
     collect_upcoming local_day today_str cname raw canvas_upcoming"
| "collect_upcoming local_day today_str cname (Some a # raw) canvas_upcoming =
     (case parse_due_date local_day (due_at a) of
        None \<Rightarrow> collect_upcoming local_day today_str cname raw canvas_upcoming
      | Some due_date \<Rightarrow>
          if due_date = [] then collect_upcoming local_day today_str cname raw canvas_upcoming
          else if due_date < today_str then collect_upcoming local_day today_str cname raw canvas_upcoming
          else
            (case assignment_id a of
               None \<Rightarrow> Inl (KeyError ''id'')
             | Some i \<Rightarrow>
                 collect_upcoming local_day today_str cname raw
                   (canvas_upcoming @
                    [\<lparr>ca_canvas_id = i,
                      ca_title = (case assignment_name a of None \<Rightarrow> ''Unnamed Assignment'' | Some n \<Rightarrow> n),
                      ca_course = cname,
                      ca_due_date = due_date\<rparr>])))"

text \<open>Lines 196-198 and 210-212: the ids of the dicts with a non-zero id are added to the set.\<close>

fun collect_ids :: "assignment option list \<Rightarrow> int set \<Rightarrow> int set" where
  "collect_ids [] ids = ids"
| "collect_ids (None # raw) ids = collect_ids raw ids"
| "collect_ids (Some a # raw) ids =
     (case assignment_id a of
        None \<Rightarrow> collect_ids raw ids
      | Some i \<Rightarrow> if i \<noteq> 0 then collect_ids raw (insert i ids) else collect_ids raw ids)"

text \<open>
  \<^verbatim>\<open>try: ... except RuntimeError\<close> around a call of \<^verbatim>\<open>_get_all\<close>: a
  \<^verbatim>\<open>RuntimeError\<close> becomes the empty list, any other exception goes on.
\<close>

fun or_empty :: "exn + 'a list \<Rightarrow> exn + 'a list" where
  "or_empty (Inl (RuntimeError m)) = Inr []"
| "or_empty (Inl e) = Inl e"
| "or_empty (Inr xs) = Inr xs"

definition get_all_or_empty ::
  "('w \<Rightarrow> string \<Rightarrow> string \<Rightarrow> 'a reply \<times> 'w) \<Rightarrow> string \<Rightarrow> string \<Rightarrow> string \<Rightarrow> 'w \<Rightarrow>
   ((exn + 'a option list) \<times> 'w) option" where
  "get_all_or_empty urlopen base_url tok path w =
     (case get_all urlopen base_url tok path w of
        None \<Rightarrow> None
      | Some (r, w') \<Rightarrow> Some (or_empty r, w'))"

text \<open>
  One iteration of the loop at lines 160-214, for the course \<open>(cid, cname)\<close>, on the
  pair of \<^verbatim>\<open>canvas_upcoming\<close> and \<^verbatim>\<open>submitted_canvas_ids\<close>.
\<close>

definition fetch_course ::
  "('w \<Rightarrow> string \<Rightarrow> string \<Rightarrow> assignment reply \<times> 'w) \<Rightarrow> (string \<Rightarrow> string option) \<Rightarrow> string \<Rightarrow>
   string \<Rightarrow> string \<Rightarrow> int \<times> string \<Rightarrow> upcoming list \<times> int set \<Rightarrow> 'w \<Rightarrow>
   ((exn + upcoming list \<times> int set) \<times> 'w) option" where
  "fetch_course urlopen local_day today_str base_url tok item acc w =
     (case get_all_or_empty urlopen base_url tok
             (bucket_path (fst item) ''upcoming&per_page=100&order_by=due_at'') w of
        None \<Rightarrow> None
      | Some (Inl e, w1) \<Rightarrow> Some (Inl e, w1)
      | Some (Inr raw, w1) \<Rightarrow>
          (case collect_upcoming local_day today_str (snd item) raw (fst acc) of
             Inl e \<Rightarrow> Some (Inl e, w1)
           | Inr canvas_upcoming \<Rightarrow>
               (case get_all_or_empty urlopen base_url tok
                       (bucket_path (fst item) ''submitted&per_page=100'') w1 of
                  None \<Rightarrow> None
                | Some (Inl e, w2) \<Rightarrow> Some (Inl e, w2)
                | Some (Inr submitted_raw, w2) \<Rightarrow>
                    (case get_all_or_empty urlopen base_url tok
                            (bucket_path (fst item) ''graded&per_page=100'') w2 of
                       None \<Rightarrow> None
                     | Some (Inl e, w3) \<Rightarrow> Some (Inl e, w3)
                     | Some (Inr graded_raw, w3) \<Rightarrow>
                         Some (Inr (canvas_upcoming,
                                    collect_ids graded_raw (collect_ids submitted_raw (snd acc))),
                               w3)))))"

fun fetch_courses ::
  "('w \<Rightarrow> string \<Rightarrow> string \<Rightarrow> assignment reply \<times> 'w) \<Rightarrow> (string \<Rightarrow> string option) \<Rightarrow> string \<Rightarrow>
   string \<Rightarrow> string \<Rightarrow> (int \<times> string) list \<Rightarrow> upcoming list \<times> int set \<Rightarrow> 'w \<Rightarrow>
   ((exn + upcoming list \<times> int set) \<times> 'w) option" where
  "fetch_courses urlopen local_day today_str base_url tok [] acc w = Some (Inr acc, w)"
| "fetch_courses urlopen local_day today_str base_url tok (item # course_map) acc w =
     (case fetch_course urlopen local_day today_str base_url tok item acc w of
        None \<Rightarrow> None
      | Some (Inl e, w') \<Rightarrow> Some (Inl e, w')
      | Some (Inr acc', w') \<Rightarrow>
          fetch_courses urlopen local_day today_str base_url tok course_map acc' w')"

section \<open>canvas_sync.py: the whole of sync\<close>

text \<open>
  \<^verbatim>\<open>_load_assignments\<close>: a missing or undecodable file gives the empty list, as a
  document without the \<^verbatim>\<open>assignments\<close> key does. \<^verbatim>\<open>_save_assignments\<close> replaces
  the file by a document with the one key; the write is taken to succeed.
\<close>

definition load_assignments :: "data_file \<Rightarrow> row list" where
  "load_assignments file =
     (case file of
        Missing \<Rightarrow> []
      | Corrupt \<Rightarrow> []
      | Document data \<Rightarrow> (case assignments data of None \<Rightarrow> [] | Some rs \<Rightarrow> rs))"

definition save_assignments :: "row list \<Rightarrow> data_file" where
  "save_assignments rs = Document \<lparr>assignments = Some rs, other_keys = []\<rparr>"

text \<open>The dict returned by \<^verbatim>\<open>sync\<close> (lines 287-295).\<close>

record summary =
  ok :: bool
  s_added :: nat
  s_updated :: nat
  s_removed :: nat
  s_auto_completed :: nat
  total_canvas :: nat
  courses :: nat

text \<open>
  Lines 137-214: the course list, the course map, and the loop over the courses.
  The result is an exception, or the course map with \<^verbatim>\<open>canvas_upcoming\<close> and
  \<^verbatim>\<open>submitted_canvas_ids\<close>.
\<close>

definition fetch ::
  "('w \<Rightarrow> string \<Rightarrow> string \<Rightarrow> course reply \<times> 'w) \<Rightarrow>
   ('w \<Rightarrow> string \<Rightarrow> string \<Rightarrow> assignment reply \<times> 'w) \<Rightarrow> (string \<Rightarrow> string option) \<Rightarrow>
   string \<Rightarrow> string \<Rightarrow> string \<Rightarrow> 'w \<Rightarrow>
   ((exn + (int \<times> string) list \<times> upcoming list \<times> int set) \<times> 'w) option" where
  "fetch courses_api assignments_api local_day today_str base_url tok w =
     (case get_all courses_api base_url tok courses_path w of
        None \<Rightarrow> None
      | Some (Inl e, w1) \<Rightarrow> Some (Inl e, w1)
      | Some (Inr raw_courses, w1) \<Rightarrow>
          (case fetch_courses assignments_api local_day today_str base_url tok
                  (build_course_map raw_courses []) ([], {}) w1 of
             None \<Rightarrow> None
           | Some (Inl e, w2) \<Rightarrow> Some (Inl e, w2)
           | Some (Inr acc, w2) \<Rightarrow> Some (Inr (build_course_map raw_courses [], acc), w2)))"

text \<open>
  \<^verbatim>\<open>sync\<close>. The parameters are what the function reads from outside: the config
  file, the two Canvas endpoints (course list; assignments of a course) with the
  state of the outside world, the date conversion, today's date as a string, the
  identifiers drawn by \<^verbatim>\<open>uuid4\<close>, and \<^verbatim>\<open>assignments.json\<close>. The result is \<open>None\<close>
  when a fetch loop does not end; otherwise the exception raised or the summary
  returned, and \<^verbatim>\<open>assignments.json\<close> afterwards.
\<close>

definition sync ::
  "config option \<Rightarrow> ('w \<Rightarrow> string \<Rightarrow> string \<Rightarrow> course reply \<times> 'w) \<Rightarrow>
   ('w \<Rightarrow> string \<Rightarrow> string \<Rightarrow> assignment reply \<times> 'w) \<Rightarrow> (string \<Rightarrow> string option) \<Rightarrow>
   string \<Rightarrow> (nat \<Rightarrow> string) \<Rightarrow> 'w \<Rightarrow> data_file \<Rightarrow> ((exn + summary) \<times> data_file) option" where
  "sync config_file courses_api assignments_api local_day today_str uuid4 w file =
     (case load_config config_file of
        Inl e \<Rightarrow> Some (Inl e, file)
      | Inr (base_url, tok) \<Rightarrow>
          (case fetch courses_api assignments_api local_day today_str base_url tok w of
             None \<Rightarrow> None
           | Some (Inl e, w') \<Rightarrow> Some (Inl e, file)
           | Some (Inr (course_map, canvas_upcoming, submitted_canvas_ids), w') \<Rightarrow>
               (case merge uuid4 canvas_upcoming submitted_canvas_ids (load_assignments file) of
                  (rows, st) \<Rightarrow>
                    Some (Inr \<lparr>ok = True,
                               s_added = added st,
                               s_updated = updated st,
                               s_removed = removed st,
                               s_auto_completed = auto_completed st,
                               total_canvas = length (new_canvas_rows st),
                               courses = length course_map\<rparr>,
                          save_assignments rows))))"

section \<open>check_notifications.py: the milestone check\<close>

text \<open>
  A call of \<^verbatim>\<open>send_notification\<close>: which of the three banners (named by the tag the
  code appends for it), and the values formatted into its title and message. How the
  banner text is rendered and delivered is outside this model.
\<close>

record notice =
  n_tag :: string
  n_course :: json
  n_title_name :: json
  n_due :: int

text \<open>
  \<^verbatim>\<open>tag not in sent\<close> for a string \<open>tag\<close>: membership in a list, substring of a
  string, key of a dict; \<^verbatim>\<open>TypeError\<close> for a value that is not iterable.
\<close>

fun not_in :: "string \<Rightarrow> json \<Rightarrow> exn + bool" where
  "not_in tag (JList xs) = Inr (JStr tag \<notin> set xs)"
| "not_in tag (JStr s) = Inr (\<not> sublist tag s)"
| "not_in tag (JObj kvs) = Inr (tag \<notin> fst ` set kvs)"
| "not_in tag JNull = Inl TypeError"
| "not_in tag (JBool b) = Inl TypeError"
| "not_in tag (JInt n) = Inl TypeError"

text \<open>\<^verbatim>\<open>sent.append(tag)\<close>: only a list has the method.\<close>

fun append_tag :: "json \<Rightarrow> string \<Rightarrow> exn + json" where
  "append_tag (JList xs) tag = Inr (JList (xs @ [JStr tag]))"
| "append_tag v tag = Inl AttributeError"

text \<open>
  The body of a branch of the chain at lines 111-136: the banner is sent, then the
  tag is appended, \<^verbatim>\<open>changed\<close> is set and line 138 stores the list in the row. When
  the append raises, the banner has been sent already.
\<close>

definition fire :: "string \<Rightarrow> json \<Rightarrow> json \<Rightarrow> int \<Rightarrow> json \<Rightarrow> row \<Rightarrow> notice list \<times> (exn + row \<times> bool)" where
  "fire tag course title_name due sent a =
     ([\<lparr>n_tag = tag, n_course = course, n_title_name = title_name, n_due = due\<rparr>],
      (case append_tag sent tag of
         Inl e \<Rightarrow> Inl e
       | Inr sent' \<Rightarrow> Inr (put a ''notifications_sent'' sent', True)))"

text \<open>
  The chain at lines 111-136 followed by the assignment of line 138.
  \<^verbatim>\<open>d == k and tag not in sent\<close> evaluates the membership test only when \<^verbatim>\<open>d == k\<close>;
  a branch is taken when its condition is true, the next condition is evaluated when
  it is false.
\<close>

definition milestone_chain :: "int \<Rightarrow> json \<Rightarrow> json \<Rightarrow> int \<Rightarrow> json \<Rightarrow> row \<Rightarrow> notice list \<times> (exn + row \<times> bool)" where
  "milestone_chain days_until course title_name due sent a =
     (case (if days_until = 3 then not_in ''3_days'' sent else Inr False) of
        Inl e \<Rightarrow> ([], Inl e)
      | Inr True \<Rightarrow> fire ''3_days'' course title_name due sent a
      | Inr False \<Rightarrow>
     (case (if days_until = 1 then not_in ''1_day'' sent else Inr False) of
        Inl e \<Rightarrow> ([], Inl e)
      | Inr True \<Rightarrow> fire ''1_day'' course title_name due sent a
      | Inr False \<Rightarrow>
     (case (if days_until = 0 then not_in ''morning'' sent else Inr False) of
        Inl e \<Rightarrow> ([], Inl e)
      | Inr True \<Rightarrow> fire ''morning'' course title_name due sent a
      | Inr False \<Rightarrow> ([], Inr (put a ''notifications_sent'' sent, False)))))"

text \<open>
  One iteration of the loop at lines 96-138. \<open>fromisoformat s\<close> is the day number
  (\<^verbatim>\<open>date.toordinal()\<close>) of \<^verbatim>\<open>date.fromisoformat(s)\<close>, or \<open>None\<close> when that raises
  \<^verbatim>\<open>ValueError\<close>; \<open>today\<close> is the day number of \<^verbatim>\<open>date.today()\<close>. A missing
  \<^verbatim>\<open>due_date\<close> (\<^verbatim>\<open>KeyError\<close>) and an unparsable one (\<^verbatim>\<open>ValueError\<close>) skip the row; a
  \<^verbatim>\<open>due_date\<close> that is not a string raises \<^verbatim>\<open>TypeError\<close>, which is not caught. The
  result is the banners sent, and either the exception that ends the run or the row
  with the value this iteration gives to \<^verbatim>\<open>changed\<close> (\<open>False\<close>: left as it was).
\<close>

definition check_row :: "(string \<Rightarrow> int option) \<Rightarrow> int \<Rightarrow> row \<Rightarrow> notice list \<times> (exn + row \<times> bool)" where
  "check_row fromisoformat today a =
     (case get a ''due_date'' of
        None \<Rightarrow> ([], Inr (a, False))
      | Some (JStr s) \<Rightarrow>
          (case fromisoformat s of
             None \<Rightarrow> ([], Inr (a, False))
           | Some due \<Rightarrow>
               (let days_until = due - today;
                    title_name = (case get a ''title'' of None \<Rightarrow> JStr ''Assignment'' | Some v \<Rightarrow> v);
                    course = (case get a ''course'' of None \<Rightarrow> JStr [] | Some v \<Rightarrow> v);
                    sent = (case get a ''notifications_sent'' of None \<Rightarrow> JList [] | Some v \<Rightarrow> v)
                in if days_until < 0 then ([], Inr (a, False))
                   else milestone_chain days_until course title_name due sent a))
      | Some v \<Rightarrow> ([], Inl TypeError))"

text \<open>
  The loop over \<^verbatim>\<open>assignments\<close>: the banners sent in order, and either the exception
  that stopped the loop or the rows after it with the final \<^verbatim>\<open>changed\<close>.
\<close>

fun check_all :: "(string \<Rightarrow> int option) \<Rightarrow> int \<Rightarrow> row list \<Rightarrow> notice list \<times> (exn + row list \<times> bool)" where
  "check_all fromisoformat today [] = ([], Inr ([], False))"
| "check_all fromisoformat today (a # rest) =
     (case check_row fromisoformat today a of
        (ns, Inl e) \<Rightarrow> (ns, Inl e)
      | (ns, Inr (a', c)) \<Rightarrow>
          (case check_all fromisoformat today rest of
             (ms, Inl e) \<Rightarrow> (ns @ ms, Inl e)
           | (ms, Inr (rest', c')) \<Rightarrow> (ns @ ms, Inr (a' # rest', c \<or> c'))))"

text \<open>
  \<^verbatim>\<open>run_checks\<close>: the banners sent, the exception the run ended with (if any) and
  the file afterwards. The file is written only when \<^verbatim>\<open>changed\<close> is set, with the
  whole of \<^verbatim>\<open>data\<close>; a write is taken to succeed.
\<close>

definition run_checks :: "(string \<Rightarrow> int option) \<Rightarrow> int \<Rightarrow> data_file \<Rightarrow> notice list \<times> exn option \<times> data_file" where
  "run_checks fromisoformat today file =
     (case file of
        Missing \<Rightarrow> ([], None, file)
      | Corrupt \<Rightarrow> ([], None, file)
      | Document data \<Rightarrow>
          (case check_all fromisoformat today (case assignments data of None \<Rightarrow> [] | Some rs \<Rightarrow> rs) of
             (ns, Inl e) \<Rightarrow> (ns, Some e, file)
           | (ns, Inr (rows, changed)) \<Rightarrow>
               (ns, None, if changed then Document (data\<lparr>assignments := Some rows\<rparr>) else file)))"

section \<open>Notions used in the statements\<close>

text \<open>
  The dict \<^verbatim>\<open>by_canvas_id\<close> as the loop at lines 223-227 leaves it: one item for each
  \<^verbatim>\<open>canvas_id\<close> among the local rows, holding the last local row with that id.
\<close>

definition tracked :: "row list \<Rightarrow> (int \<times> row) list" where
  "tracked existing = snd (separate existing [] [])"

text \<open>The \<^verbatim>\<open>canvas_id\<close> of the row an element of \<^verbatim>\<open>new_canvas_rows\<close> refers to.\<close>

fun entry_id :: "entry \<Rightarrow> int option" where
  "entry_id (Ref cid) = Some cid"
| "entry_id (Fresh r) = canvas_id r"

text \<open>
  The row \<open>r\<close> after the assignments made for every element of \<^verbatim>\<open>canvas_upcoming\<close>
  with the id \<open>cid\<close>, in the list's order.
\<close>

definition refresh_all :: "upcoming list \<Rightarrow> int \<Rightarrow> row \<Rightarrow> row" where
  "refresh_all ups cid r = foldl (\<lambda>r ca. refresh ca r) r (filter (\<lambda>ca. ca_canvas_id ca = cid) ups)"

text \<open>
  What the two loops make of the local row \<open>r0\<close> held under \<open>c\<close>: refreshed when
  \<open>c\<close> is upcoming, else marked completed when \<open>c\<close> is submitted and the row is not
  completed yet, else left as it is.
\<close>

definition merged_row :: "upcoming list \<Rightarrow> int set \<Rightarrow> int \<Rightarrow> row \<Rightarrow> row" where
  "merged_row ups sub c r0 =
     (if c \<in> ca_canvas_id ` set ups then refresh_all ups c r0
      else if c \<in> sub \<and> \<not> is_set r0 ''completed'' then put r0 ''completed'' (JBool True)
      else r0)"

text \<open>
  The value of \<^verbatim>\<open>sent\<close> at line 105, and the elements of a row's
  \<^verbatim>\<open>notifications_sent\<close> when it is a list.
\<close>

definition sent_value :: "row \<Rightarrow> json" where
  "sent_value a = (case get a ''notifications_sent'' of None \<Rightarrow> JList [] | Some v \<Rightarrow> v)"

definition sent_list :: "row \<Rightarrow> json list" where
  "sent_list a = (case get a ''notifications_sent'' of Some (JList xs) \<Rightarrow> xs | _ \<Rightarrow> [])"

text \<open>
  The three milestones as the spec's table has them, with the tags the code uses:
  the value of \<^verbatim>\<open>days_until\<close> at which each fires, and its tag. \<open>due_milestones\<close>
  follows the spec's words: the milestones whose value is \<^verbatim>\<open>days_until\<close> and whose tag
  is not among those fired.
\<close>

definition milestones :: "(int \<times> string) list" where
  "milestones = [(3, ''3_days''), (1, ''1_day''), (0, ''morning'')]"

definition due_milestones :: "int \<Rightarrow> json list \<Rightarrow> string list" where
  "due_milestones days_until fired =
     map snd (filter (\<lambda>(k, tag). days_until = k \<and> JStr tag \<notin> set fired) milestones)"

text \<open>The banner sent for the row \<open>a\<close>, due on day \<open>due\<close>, at the milestone \<open>tag\<close>.\<close>

definition notice_for :: "row \<Rightarrow> int \<Rightarrow> string \<Rightarrow> notice" where
  "notice_for a due tag =
     \<lparr>n_tag = tag,
      n_course = (case get a ''course'' of None \<Rightarrow> JStr [] | Some v \<Rightarrow> v),
      n_title_name = (case get a ''title'' of None \<Rightarrow> JStr ''Assignment'' | Some v \<Rightarrow> v),
      n_due = due\<rparr>"

text \<open>
  \<open>n\<close> successive runs of the check on the same day, each on the rows the previous
  one left: the banners of each run and the final rows; \<open>None\<close> when a run raises.
\<close>

fun repeat_checks :: "(string \<Rightarrow> int option) \<Rightarrow> int \<Rightarrow> nat \<Rightarrow> row list \<Rightarrow> (notice list list \<times> row list) option" where
  "repeat_checks f today 0 rows = Some ([], rows)"
| "repeat_checks f today (Suc n) rows =
     (case check_all f today rows of
        (ns, Inl e) \<Rightarrow> None
      | (ns, Inr (rows', changed)) \<Rightarrow>
          (case repeat_checks f today n rows' of
             None \<Rightarrow> None
           | Some (later, final) \<Rightarrow> Some (ns # later, final)))"

section \<open>Concrete inputs\<close>

text \<open>
  An upcoming assignment, local rows (one not completed, an older one with the same
  \<^verbatim>\<open>canvas_id\<close>, one completed and due on 2026-03-10), the day number of that date, and
  identifiers for new rows.
\<close>

definition essay :: upcoming where
  "essay = \<lparr>ca_canvas_id = 5, ca_title = ''Essay'', ca_course = ''ENG101'', ca_due_date = ''2026-03-10''\<rparr>"



definition row7 :: row where
  "row7 = \<lparr>canvas_id = Some 7,
            items = [(''id'', JStr ''a7''), (''title'', JStr ''Quiz''), (''due_date'', JStr ''2026-03-10''),
                     (''completed'', JBool True)]\<rparr>"

definition iso_days :: "string \<Rightarrow> int option" where
  "iso_days s = (if s = ''2026-03-10'' then Some 739685 else None)"

definition uuids :: "nat \<Rightarrow> string" where
  "uuids n = replicate (Suc n) (CHR ''u'')"

text \<open>
  A config file, and Canvas in three situations: every request answered with 401; a
  course list with one course; a course whose buckets are all empty; a course whose
  first request (the upcoming bucket) lists one assignment twice, with a date
  conversion that keeps the UTC day.
\<close>

definition test_config :: "config option" where
  "test_config = Some \<lparr>canvas_url = Some ''https://canvas.test/'', token = Some ''secret''\<rparr>"


definition biology :: course where
  "biology = \<lparr>course_id = Some 1, course_name = Some ''Biology'', course_code = None\<rparr>"

definition one_course :: "'w \<Rightarrow> string \<Rightarrow> string \<Rightarrow> course reply \<times> 'w" where
  "one_course w url tok = (Response (Page_List [Some biology]) [], w)"

definition no_assignments :: "unit \<Rightarrow> string \<Rightarrow> string \<Rightarrow> assignment reply \<times> unit" where
  "no_assignments w url tok = (Response (Page_List []) [], w)"

definition no_date :: "string \<Rightarrow> string option" where
  "no_date s = None"

definition essay_item :: assignment where
  "essay_item = \<lparr>assignment_id = Some 5, assignment_name = Some ''Essay'',
                  due_at = Some ''2026-03-10T23:59:00Z''\<rparr>"

definition listed_twice :: "nat \<Rightarrow> string \<Rightarrow> string \<Rightarrow> assignment reply \<times> nat" where
  "listed_twice w url tok =
     (if w = 0 then Response (Page_List [Some essay_item, Some essay_item]) []
      else Response (Page_List []) [], Suc w)"

definition utc_day :: "string \<Rightarrow> string option" where
  "utc_day s = Some (take 10 s)"

section \<open>Lemmas on the merge\<close>

lemma update_set_subset: "set (AList.update k v al) \<subseteq> insert (k, v) (set al)"
  by (induction al) auto

lemma find_snoc: "find P (xs @ [x]) = (case find P xs of None \<Rightarrow> (if P x then Some x else None) | Some y \<Rightarrow> Some y)"
  by (induction xs) auto

lemma separate_fst: "fst (separate rs m b) = m @ filter (\<lambda>r. canvas_id r = None) rs"
  by (induction rs arbitrary: m b) (auto split: option.splits)

lemma separate_keyed:
  "\<forall>(k, r) \<in> set b. canvas_id r = Some k \<Longrightarrow> \<forall>(k, r) \<in> set (snd (separate rs m b)). canvas_id r = Some k"
proof (induction rs arbitrary: m b)
  case Nil then show ?case by simp
next
  case (Cons a rs)
  show ?case
  proof (cases "canvas_id a")
    case None
    then show ?thesis using Cons by simp
  next
    case (Some cid)
    have "\<forall>(k, r) \<in> set (AList.update cid a b). canvas_id r = Some k"
      using Cons.prems Some update_set_subset[of cid a b] by auto
    then show ?thesis using Cons.IH Some by simp
  qed
qed

lemma separate_distinct:
  "distinct (map fst b) \<Longrightarrow> distinct (map fst (snd (separate rs m b)))"
  by (induction rs arbitrary: m b) (auto split: option.splits simp: distinct_update)

lemma separate_map_of:
  "map_of (snd (separate rs m b)) cid =
     (case find (\<lambda>r. canvas_id r = Some cid) (rev rs) of Some r \<Rightarrow> Some r | None \<Rightarrow> map_of b cid)"
  by (induction rs arbitrary: m b) (auto split: option.splits simp: update_conv' find_snoc)

lemma update_absent_map:
  "k \<notin> fst ` set al \<Longrightarrow> map (\<lambda>(c, r). (c, if c = k then f r else r)) al = al"
  by (induction al) auto

lemma update_as_map:
  "distinct (map fst al) \<Longrightarrow> map_of al k = Some r0 \<Longrightarrow>
   AList.update k (f r0) al = map (\<lambda>(c, r). (c, if c = k then f r else r)) al"
proof (induction al)
  case Nil then show ?case by simp
next
  case (Cons p al)
  obtain a b where p: "p = (a, b)" by (cases p)
  show ?case
  proof (cases "a = k")
    case True
    then have "k \<notin> fst ` set al" using Cons.prems p by auto
    then show ?thesis using True p Cons.prems by (simp add: update_absent_map)
  next
    case False
    then show ?thesis using p Cons by simp
  qed
qed

lemma up_processed: "processed_ids (upcoming_step u st ca) = insert (ca_canvas_id ca) (processed_ids st)"
  by (simp add: upcoming_step_def Let_def split: option.splits)


lemma up_removed: "removed (upcoming_step u st ca) = removed st"
  by (simp add: upcoming_step_def Let_def split: option.splits)

lemma up_by:
  "distinct (map fst (by_canvas_id st)) \<Longrightarrow> by_canvas_id (upcoming_step u st ca) =
     map (\<lambda>(c, r). (c, if c = ca_canvas_id ca then refresh ca r else r)) (by_canvas_id st)"
proof (cases "map_of (by_canvas_id st) (ca_canvas_id ca)")
  case None
  then have "ca_canvas_id ca \<notin> fst ` set (by_canvas_id st)" by (simp add: map_of_eq_None_iff)
  then show ?thesis using None by (simp add: upcoming_step_def Let_def update_absent_map)
next
  case (Some r0)
  assume "distinct (map fst (by_canvas_id st))"
  from update_as_map[OF this Some, of "refresh ca"] Some
  show ?thesis by (simp add: upcoming_step_def Let_def)
qed

lemma map_of_in_keys: "map_of al k = Some v \<Longrightarrow> k \<in> fst ` set al"
  by (metis map_of_eq_None_iff option.distinct(1))

lemma up_new:
  "new_canvas_rows (upcoming_step u st ca) = new_canvas_rows st @
     [if ca_canvas_id ca \<in> fst ` set (by_canvas_id st) then Ref (ca_canvas_id ca)
      else Fresh (new_row (u (added st)) ca)]"
proof (cases "map_of (by_canvas_id st) (ca_canvas_id ca)")
  case None
  then have "ca_canvas_id ca \<notin> fst ` set (by_canvas_id st)" by (simp add: map_of_eq_None_iff)
  then show ?thesis using None by (simp add: upcoming_step_def Let_def)
next
  case (Some r0)
  then show ?thesis using map_of_in_keys[OF Some] by (simp add: upcoming_step_def Let_def)
qed

lemma up_added:
  "added (upcoming_step u st ca) =
     (if ca_canvas_id ca \<in> fst ` set (by_canvas_id st) then added st else added st + 1)"
proof (cases "map_of (by_canvas_id st) (ca_canvas_id ca)")
  case None
  then have "ca_canvas_id ca \<notin> fst ` set (by_canvas_id st)" by (simp add: map_of_eq_None_iff)
  then show ?thesis using None by (simp add: upcoming_step_def Let_def)
next
  case (Some r0)
  then show ?thesis using map_of_in_keys[OF Some] by (simp add: upcoming_step_def Let_def)
qed

lemma refresh_all_Nil: "refresh_all [] cid r = r" by (simp add: refresh_all_def)

lemma refresh_all_Cons: "refresh_all (ca # ups) cid r =
   refresh_all ups cid (if ca_canvas_id ca = cid then refresh ca r else r)"
  by (simp add: refresh_all_def)

lemma loop1_processed:
  "processed_ids (foldl (upcoming_step u) st ups) = processed_ids st \<union> ca_canvas_id ` set ups"
  by (induction ups arbitrary: st) (auto simp: up_processed)


lemma loop1_removed: "removed (foldl (upcoming_step u) st ups) = removed st"
  by (induction ups arbitrary: st) (auto simp: up_removed)

lemma loop1_by:
  "distinct (map fst (by_canvas_id st)) \<Longrightarrow>
   by_canvas_id (foldl (upcoming_step u) st ups) =
     map (\<lambda>(c, r). (c, refresh_all ups c r)) (by_canvas_id st)"
proof (induction ups arbitrary: st)
  case Nil
  then show ?case by (simp add: refresh_all_Nil)
next
  case (Cons ca ups)
  let ?st = "upcoming_step u st ca"
  have by1: "by_canvas_id ?st =
     map (\<lambda>(c, r). (c, if c = ca_canvas_id ca then refresh ca r else r)) (by_canvas_id st)"
    using Cons.prems by (rule up_by)
  have "map fst (by_canvas_id ?st) = map fst (by_canvas_id st)"
    unfolding by1 by (induction "by_canvas_id st") auto
  then have d: "distinct (map fst (by_canvas_id ?st))" using Cons.prems by simp
  show ?case
    using Cons.IH[OF d] unfolding by1
    by (auto simp: refresh_all_Cons)
qed

lemma loop1_new_ids:
  "map entry_id (new_canvas_rows (foldl (upcoming_step u) st ups)) =
     map entry_id (new_canvas_rows st) @ map (\<lambda>ca. Some (ca_canvas_id ca)) ups"
  by (induction ups arbitrary: st) (auto simp: up_new new_row_def)


lemma up_keys: "map fst (by_canvas_id (upcoming_step u st ca)) = map fst (by_canvas_id st)"
proof (cases "map_of (by_canvas_id st) (ca_canvas_id ca)")
  case None
  then show ?thesis by (simp add: upcoming_step_def Let_def)
next
  case (Some r0)
  then show ?thesis using map_of_in_keys[OF Some]
    by (simp add: upcoming_step_def Let_def update_keys)
qed

lemma loop1_keys: "map fst (by_canvas_id (foldl (upcoming_step u) st ups)) = map fst (by_canvas_id st)"
  by (induction ups arbitrary: st) (auto simp: up_keys)



lemma loop1_new_entries:
  "e \<in> set (new_canvas_rows (foldl (upcoming_step u) st ups)) \<Longrightarrow>
   e \<in> set (new_canvas_rows st) \<or>
   (\<exists>ca \<in> set ups. ca_canvas_id ca \<in> fst ` set (by_canvas_id st) \<and> e = Ref (ca_canvas_id ca)) \<or>
   (\<exists>ca \<in> set ups. \<exists>n. ca_canvas_id ca \<notin> fst ` set (by_canvas_id st) \<and> e = Fresh (new_row (u n) ca))"
proof (induction ups arbitrary: st)
  case Nil then show ?case by simp
next
  case (Cons a ups)
  have keys: "fst ` set (by_canvas_id (upcoming_step u st a)) = fst ` set (by_canvas_id st)"
    using up_keys[of u st a] by (metis set_map)
  from Cons.prems have "e \<in> set (new_canvas_rows (foldl (upcoming_step u) (upcoming_step u st a) ups))"
    by simp
  from Cons.IH[OF this] show ?case
    unfolding keys by (auto simp: up_new split: if_splits)
qed

lemma lo_processed: "processed_ids (leftover_step sub st it) = processed_ids st"
  by (cases it) (simp add: leftover_step_def)

lemma lo_new: "new_canvas_rows (leftover_step sub st it) = new_canvas_rows st @
   (if fst it \<notin> processed_ids st \<and> (fst it \<in> sub \<or> is_set (snd it) ''completed'') then [Ref (fst it)] else [])"
  by (cases it) (simp add: leftover_step_def)


lemma lo_removed: "removed (leftover_step sub st it) = removed st +
   (if fst it \<notin> processed_ids st \<and> fst it \<notin> sub \<and> \<not> is_set (snd it) ''completed'' then 1 else 0)"
  by (cases it) (simp add: leftover_step_def)

lemma lo_by: "by_canvas_id (leftover_step sub st it) =
   (if fst it \<notin> processed_ids st \<and> fst it \<in> sub \<and> \<not> is_set (snd it) ''completed''
    then AList.update (fst it) (put (snd it) ''completed'' (JBool True)) (by_canvas_id st)
    else by_canvas_id st)"
  by (cases it) (simp add: leftover_step_def)

lemma loop2_processed: "processed_ids (foldl (leftover_step sub) st its) = processed_ids st"
  by (induction its arbitrary: st) (auto simp: lo_processed)

lemma loop2_new: "new_canvas_rows (foldl (leftover_step sub) st its) = new_canvas_rows st @
   map (\<lambda>it. Ref (fst it))
     (filter (\<lambda>it. fst it \<notin> processed_ids st \<and> (fst it \<in> sub \<or> is_set (snd it) ''completed'')) its)"
  by (induction its arbitrary: st) (auto simp: lo_new lo_processed)


lemma loop2_removed: "removed (foldl (leftover_step sub) st its) = removed st +
   length (filter (\<lambda>it. fst it \<notin> processed_ids st \<and> fst it \<notin> sub \<and> \<not> is_set (snd it) ''completed'') its)"
  by (induction its arbitrary: st) (auto simp: lo_removed lo_processed)

lemma loop2_map_of:
  "distinct (map fst its) \<Longrightarrow>
   map_of (by_canvas_id (foldl (leftover_step sub) st its)) k =
     (case map_of its k of
        Some r \<Rightarrow> if k \<notin> processed_ids st \<and> k \<in> sub \<and> \<not> is_set r ''completed''
                  then Some (put r ''completed'' (JBool True)) else map_of (by_canvas_id st) k
      | None \<Rightarrow> map_of (by_canvas_id st) k)"
proof (induction its arbitrary: st)
  case Nil then show ?case by simp
next
  case (Cons it its)
  obtain c r where it: "it = (c, r)" by (cases it)
  have d: "distinct (map fst its)" and c: "c \<notin> fst ` set its" using Cons.prems it by auto
  have none: "map_of its c = None" using c by (simp add: map_of_eq_None_iff)
  show ?case
    using Cons.IH[OF d, of "leftover_step sub st it"] none
    by (auto simp: it lo_by lo_processed update_conv' split: option.splits)
qed

lemma loop2_keys:
  "fst ` set its \<subseteq> fst ` set (by_canvas_id st) \<Longrightarrow>
   map fst (by_canvas_id (foldl (leftover_step sub) st its)) = map fst (by_canvas_id st)"
proof (induction its arbitrary: st)
  case Nil then show ?case by simp
next
  case (Cons it its)
  have k: "map fst (by_canvas_id (leftover_step sub st it)) = map fst (by_canvas_id st)"
    using Cons.prems by (auto simp: lo_by update_keys)
  then have "fst ` set (by_canvas_id (leftover_step sub st it)) = fst ` set (by_canvas_id st)"
    by (metis set_map)
  then show ?case using Cons.IH[of "leftover_step sub st it"] Cons.prems k by simp
qed

lemma get_put: "get (put r k v) k' = (if k' = k then Some v else get r k')"
  by (simp add: get_def put_def update_conv')

lemma canvas_id_put: "canvas_id (put r k v) = canvas_id r"
  by (simp add: put_def)

lemma canvas_id_refresh: "canvas_id (refresh ca r) = canvas_id r"
  by (simp add: refresh_def canvas_id_put)

lemma get_refresh:
  "get (refresh ca r) k =
     (if k = ''source'' then Some (JStr ''canvas'')
      else if k = ''due_date'' then Some (JStr (ca_due_date ca))
      else if k = ''course'' then Some (JStr (ca_course ca))
      else if k = ''title'' then Some (JStr (ca_title ca))
      else get r k)"
  by (simp add: refresh_def get_put)

lemma refresh_all_absent: "cid \<notin> ca_canvas_id ` set ups \<Longrightarrow> refresh_all ups cid r = r"
proof -
  assume "cid \<notin> ca_canvas_id ` set ups"
  then have "filter (\<lambda>ca. ca_canvas_id ca = cid) ups = []"
    by (auto simp: filter_empty_conv)
  then show ?thesis by (simp add: refresh_all_def)
qed

lemma canvas_id_refresh_all: "canvas_id (refresh_all ups cid r) = canvas_id r"
  by (induction ups arbitrary: r) (auto simp: refresh_all_Nil refresh_all_Cons canvas_id_refresh)

lemma get_refresh_all_other:
  "k \<noteq> ''source'' \<Longrightarrow> k \<noteq> ''due_date'' \<Longrightarrow> k \<noteq> ''course'' \<Longrightarrow> k \<noteq> ''title'' \<Longrightarrow>
   get (refresh_all ups cid r) k = get r k"
  by (induction ups arbitrary: r) (auto simp: refresh_all_Nil refresh_all_Cons get_refresh)

lemma refresh_all_snoc:
  "refresh_all (ups @ [ca]) cid r =
     (if ca_canvas_id ca = cid then refresh ca (refresh_all ups cid r) else refresh_all ups cid r)"
  by (simp add: refresh_all_def)

lemma get_refresh_all_last:
  "find (\<lambda>ca. ca_canvas_id ca = cid) (rev ups) = Some ca \<Longrightarrow>
   get (refresh_all ups cid r) k = get (refresh ca r) k"
proof (induction ups rule: rev_induct)
  case Nil then show ?case by simp
next
  case (snoc a ups)
  show ?case
  proof (cases "ca_canvas_id a = cid")
    case True
    then have "ca = a" using snoc.prems by simp
    then show ?thesis using True
      by (simp add: refresh_all_snoc get_refresh get_refresh_all_other)
  next
    case False
    then show ?thesis using snoc by (simp add: refresh_all_snoc)
  qed
qed

lemma deref_all_append: "deref_all b (es @ fs) = deref_all b es @ deref_all b fs"
  by (simp add: deref_all_def)

lemma deref_all_ids:
  "\<forall>e \<in> set es. \<forall>c. e = Ref c \<longrightarrow> (\<exists>r. map_of b c = Some r \<and> canvas_id r = Some c) \<Longrightarrow>
   map canvas_id (deref_all b es) = map entry_id es"
proof (induction es)
  case Nil then show ?case by (simp add: deref_all_def)
next
  case (Cons e es)
  then have IH: "map canvas_id (deref_all b es) = map entry_id es" by simp
  have "map canvas_id (deref b e) = [entry_id e]"
  proof (cases e)
    case (Ref c)
    then obtain r where "map_of b c = Some r" "canvas_id r = Some c" using Cons.prems by auto
    then show ?thesis using Ref by simp
  next
    case (Fresh r) then show ?thesis by simp
  qed
  then show ?case using IH by (simp add: deref_all_def)
qed

lemma deref_all_mem:
  "r \<in> set (deref_all b es) \<Longrightarrow>
   (\<exists>c. Ref c \<in> set es \<and> map_of b c = Some r) \<or> Fresh r \<in> set es"
proof (induction es)
  case Nil then show ?case by (simp add: deref_all_def)
next
  case (Cons e es)
  then show ?case
    by (cases e) (auto simp: deref_all_def split: option.splits)
qed


lemma tracked_distinct: "distinct (map fst (tracked ex))"
  unfolding tracked_def using separate_distinct[of "[]" ex "[]"] by simp

lemma tracked_keyed: "map_of (tracked ex) c = Some r \<Longrightarrow> canvas_id r = Some c"
  unfolding tracked_def using separate_keyed[of "[]" ex "[]"] by (auto dest: map_of_SomeD)

lemma tracked_last:
  "map_of (tracked ex) c = find (\<lambda>r. canvas_id r = Some c) (rev ex)"
  unfolding tracked_def by (simp add: separate_map_of split: option.splits)

lemma merge_fst:
  "fst (merge u ups sub ex) =
     filter (\<lambda>r. canvas_id r = None) ex @
     deref_all (by_canvas_id (merge_loops u ups sub (tracked ex)))
               (new_canvas_rows (merge_loops u ups sub (tracked ex)))"
  using separate_fst[of ex "[]" "[]"]
  by (auto simp add: merge_def tracked_def Let_def split: prod.splits)

lemma merge_snd: "snd (merge u ups sub ex) = merge_loops u ups sub (tracked ex)"
  by (simp add: merge_def tracked_def Let_def split: prod.splits)


lemma loops_processed: "processed_ids (merge_loops u ups sub b) = ca_canvas_id ` set ups"
  by (simp add: merge_loops_def Let_def loop2_processed loop1_processed)

lemma loops_by1:
  "distinct (map fst b) \<Longrightarrow>
   by_canvas_id (foldl (upcoming_step u)
      \<lparr>by_canvas_id = b, new_canvas_rows = [], processed_ids = {}, added = 0, updated = 0,
       removed = 0, auto_completed = 0\<rparr> ups) = map (\<lambda>(c, r). (c, refresh_all ups c r)) b"
  using loop1_by[of "\<lparr>by_canvas_id = b, new_canvas_rows = [], processed_ids = {}, added = 0, updated = 0,
       removed = 0, auto_completed = 0\<rparr>" u ups] by simp

lemma leftover_filter:
  "filter (\<lambda>it. fst it \<notin> ca_canvas_id ` set ups \<and> Q (fst it) (snd it))
          (map (\<lambda>(c, r). (c, refresh_all ups c r)) b) =
   filter (\<lambda>it. fst it \<notin> ca_canvas_id ` set ups \<and> Q (fst it) (snd it)) b"
  by (induction b) (auto simp: refresh_all_absent)


lemma loops_removed:
  assumes "distinct (map fst b)"
  shows "removed (merge_loops u ups sub b) =
     length (filter (\<lambda>it. fst it \<notin> ca_canvas_id ` set ups \<and> fst it \<notin> sub \<and>
                           \<not> is_set (snd it) ''completed'') b)"
  using leftover_filter[of ups "\<lambda>c r. c \<notin> sub \<and> \<not> is_set r ''completed''" b]
  by (simp add: merge_loops_def Let_def loop2_removed loop1_removed loop1_processed loops_by1[OF assms])

lemma map_of_refreshed:
  "map_of (map (\<lambda>(c, r). (c, refresh_all ups c r)) b) k = map_option (refresh_all ups k) (map_of b k)"
  by (induction b) auto

lemma loops_map_of:
  assumes "distinct (map fst b)"
  shows "map_of (by_canvas_id (merge_loops u ups sub b)) k =
     (case map_of b k of
        None \<Rightarrow> None
      | Some r0 \<Rightarrow>
          Some (if k \<in> ca_canvas_id ` set ups then refresh_all ups k r0
                else if k \<in> sub \<and> \<not> is_set r0 ''completed'' then put r0 ''completed'' (JBool True)
                else r0))"
proof -
  let ?ini = "\<lparr>by_canvas_id = b, new_canvas_rows = [], processed_ids = {}, added = 0, updated = 0,
       removed = 0, auto_completed = 0\<rparr>"
  let ?fst = "foldl (upcoming_step u) ?ini ups"
  have b1: "by_canvas_id ?fst = map (\<lambda>(c, r). (c, refresh_all ups c r)) b"
    by (rule loops_by1[OF assms])
  have "map fst (by_canvas_id ?fst) = map fst b" using loop1_keys[of u ?ini ups] by simp
  then have d1: "distinct (map fst (by_canvas_id ?fst))" using assms by simp
  have p1: "processed_ids ?fst = ca_canvas_id ` set ups" by (simp add: loop1_processed)
  show ?thesis
    unfolding merge_loops_def Let_def loop2_map_of[OF d1] p1
    unfolding b1 map_of_refreshed
    by (auto split: option.splits simp: refresh_all_absent)
qed

lemma loops_new:
  assumes "distinct (map fst b)"
  shows "new_canvas_rows (merge_loops u ups sub b) =
     new_canvas_rows (foldl (upcoming_step u)
        \<lparr>by_canvas_id = b, new_canvas_rows = [], processed_ids = {}, added = 0, updated = 0,
         removed = 0, auto_completed = 0\<rparr> ups) @
     map (\<lambda>it. Ref (fst it))
       (filter (\<lambda>it. fst it \<notin> ca_canvas_id ` set ups \<and> (fst it \<in> sub \<or> is_set (snd it) ''completed'')) b)"
  using leftover_filter[of ups "\<lambda>c r. c \<in> sub \<or> is_set r ''completed''" b]
  by (simp add: merge_loops_def Let_def loop2_new loop1_processed loops_by1[OF assms])

lemma merge_map_of:
  "map_of (by_canvas_id (merge_loops u ups sub (tracked ex))) k =
     map_option (merged_row ups sub k) (map_of (tracked ex) k)"
  using loops_map_of[OF tracked_distinct, of u ups sub ex k]
  by (simp add: merged_row_def split: option.splits)

lemma canvas_id_merged_row: "canvas_id (merged_row ups sub c r0) = canvas_id r0"
  by (simp add: merged_row_def canvas_id_refresh_all canvas_id_put)

lemma merge_new_entries:
  assumes "e \<in> set (new_canvas_rows (merge_loops u ups sub (tracked ex)))"
  shows "(\<exists>c r0. e = Ref c \<and> map_of (tracked ex) c = Some r0 \<and>
            (c \<in> ca_canvas_id ` set ups \<or> c \<in> sub \<or> is_set r0 ''completed'')) \<or>
         (\<exists>ca \<in> set ups. \<exists>n. map_of (tracked ex) (ca_canvas_id ca) = None \<and> e = Fresh (new_row (u n) ca))"
proof -
  let ?ini = "\<lparr>by_canvas_id = tracked ex, new_canvas_rows = [], processed_ids = {}, added = 0,
               updated = 0, removed = 0, auto_completed = 0\<rparr>"
  from assms consider
    (a) "e \<in> set (new_canvas_rows (foldl (upcoming_step u) ?ini ups))"
  | (b) "\<exists>it \<in> set (tracked ex). e = Ref (fst it) \<and> fst it \<notin> ca_canvas_id ` set ups \<and>
           (fst it \<in> sub \<or> is_set (snd it) ''completed'')"
    unfolding loops_new[OF tracked_distinct] by auto
  then show ?thesis
  proof cases
    case a
    from loop1_new_entries[OF a] show ?thesis
    proof (elim disjE bexE exE conjE)
      assume "e \<in> set (new_canvas_rows ?ini)" then show ?thesis by simp
    next
      fix ca assume ca: "ca \<in> set ups" "ca_canvas_id ca \<in> fst ` set (by_canvas_id ?ini)"
        "e = Ref (ca_canvas_id ca)"
      then obtain r0 where "map_of (tracked ex) (ca_canvas_id ca) = Some r0"
        by (cases "map_of (tracked ex) (ca_canvas_id ca)") (auto simp: map_of_eq_None_iff)
      then show ?thesis using ca by auto
    next
      fix ca n assume ca: "ca \<in> set ups" "ca_canvas_id ca \<notin> fst ` set (by_canvas_id ?ini)"
        "e = Fresh (new_row (u n) ca)"
      then have "map_of (tracked ex) (ca_canvas_id ca) = None" by (simp add: map_of_eq_None_iff)
      then show ?thesis using ca by auto
    qed
  next
    case b
    then obtain c r0 where it: "(c, r0) \<in> set (tracked ex)" "e = Ref c"
      "c \<in> sub \<or> is_set r0 ''completed''" by auto
    then have "map_of (tracked ex) c = Some r0" using tracked_distinct[of ex] by simp
    then show ?thesis using it by auto
  qed
qed

lemma merge_canvas_rows_cases:
  assumes "r \<in> set (deref_all (by_canvas_id (merge_loops u ups sub (tracked ex)))
                               (new_canvas_rows (merge_loops u ups sub (tracked ex))))"
  shows "(\<exists>c r0. map_of (tracked ex) c = Some r0 \<and> r = merged_row ups sub c r0 \<and> canvas_id r = Some c) \<or>
         (\<exists>ca \<in> set ups. \<exists>n. map_of (tracked ex) (ca_canvas_id ca) = None \<and> r = new_row (u n) ca)"
proof -
  let ?st = "merge_loops u ups sub (tracked ex)"
  from deref_all_mem[OF assms] show ?thesis
  proof (elim disjE exE conjE)
    fix k assume k: "Ref k \<in> set (new_canvas_rows ?st)" "map_of (by_canvas_id ?st) k = Some r"
    then obtain r0 where r0: "map_of (tracked ex) k = Some r0" "r = merged_row ups sub k r0"
      unfolding merge_map_of by auto
    then have "canvas_id r = Some k" using tracked_keyed[OF r0(1)] by (simp add: canvas_id_merged_row)
    then show ?thesis using r0 by blast
  next
    assume f: "Fresh r \<in> set (new_canvas_rows ?st)"
    from merge_new_entries[OF f] show ?thesis by auto
  qed
qed

lemma merge_canvas_rows_id:
  assumes "r \<in> set (deref_all (by_canvas_id (merge_loops u ups sub (tracked ex)))
                               (new_canvas_rows (merge_loops u ups sub (tracked ex))))"
  shows "canvas_id r \<noteq> None"
  using merge_canvas_rows_cases[OF assms] by (auto simp: new_row_def)

lemma merge_manual_rows:
  "filter (\<lambda>r. canvas_id r = None) (fst (merge u ups sub ex)) = filter (\<lambda>r. canvas_id r = None) ex"
proof -
  let ?st = "merge_loops u ups sub (tracked ex)"
  have "filter (\<lambda>r. canvas_id r = None) (deref_all (by_canvas_id ?st) (new_canvas_rows ?st)) = []"
    using merge_canvas_rows_id[of _ u ups sub ex] by (auto simp add: filter_empty_conv)
  then show ?thesis unfolding merge_fst by simp
qed

lemma merge_rows_cases:
  assumes "r \<in> set (fst (merge u ups sub ex))"
  shows "(canvas_id r = None \<and> r \<in> set ex) \<or>
         (\<exists>c r0. map_of (tracked ex) c = Some r0 \<and> r = merged_row ups sub c r0 \<and> canvas_id r = Some c) \<or>
         (\<exists>ca \<in> set ups. \<exists>n. map_of (tracked ex) (ca_canvas_id ca) = None \<and> r = new_row (u n) ca)"
proof -
  let ?st = "merge_loops u ups sub (tracked ex)"
  from assms consider (m) "r \<in> set (filter (\<lambda>r. canvas_id r = None) ex)"
    | (c) "r \<in> set (deref_all (by_canvas_id ?st) (new_canvas_rows ?st))"
    unfolding merge_fst by auto
  then show ?thesis
  proof cases
    case m then show ?thesis by simp
  next
    case c
    from merge_canvas_rows_cases[OF c] show ?thesis by blast
  qed
qed



lemma merge_removed:
  "removed (snd (merge u ups sub ex)) =
     length (filter (\<lambda>it. fst it \<notin> ca_canvas_id ` set ups \<and> fst it \<notin> sub \<and>
                           \<not> is_set (snd it) ''completed'') (tracked ex))"
  unfolding merge_snd by (rule loops_removed[OF tracked_distinct])







lemma merge_canvas_ids:
  "map canvas_id (fst (merge u ups sub ex)) =
     map (\<lambda>r. None) (filter (\<lambda>r. canvas_id r = None) ex) @
     map (\<lambda>ca. Some (ca_canvas_id ca)) ups @
     map (\<lambda>it. Some (fst it))
       (filter (\<lambda>it. fst it \<notin> ca_canvas_id ` set ups \<and> (fst it \<in> sub \<or> is_set (snd it) ''completed''))
          (tracked ex))"
proof -
  let ?st = "merge_loops u ups sub (tracked ex)"
  have refs: "\<forall>e \<in> set (new_canvas_rows ?st). \<forall>c. e = Ref c \<longrightarrow>
                (\<exists>r. map_of (by_canvas_id ?st) c = Some r \<and> canvas_id r = Some c)"
  proof (intro ballI allI impI)
    fix e c assume e: "e \<in> set (new_canvas_rows ?st)" "e = Ref c"
    from merge_new_entries[OF e(1)] e(2) obtain r0 where r0: "map_of (tracked ex) c = Some r0"
      by auto
    then have "map_of (by_canvas_id ?st) c = Some (merged_row ups sub c r0)"
      unfolding merge_map_of by simp
    moreover have "canvas_id (merged_row ups sub c r0) = Some c"
      using tracked_keyed[OF r0] by (simp add: canvas_id_merged_row)
    ultimately show "\<exists>r. map_of (by_canvas_id ?st) c = Some r \<and> canvas_id r = Some c" by blast
  qed
  have m: "map canvas_id (filter (\<lambda>r. canvas_id r = None) ex) =
           map (\<lambda>r. None) (filter (\<lambda>r. canvas_id r = None) ex)"
    by (induction ex) auto
  have n: "map entry_id (new_canvas_rows ?st) =
     map (\<lambda>ca. Some (ca_canvas_id ca)) ups @
     map (\<lambda>it. Some (fst it))
       (filter (\<lambda>it. fst it \<notin> ca_canvas_id ` set ups \<and> (fst it \<in> sub \<or> is_set (snd it) ''completed''))
          (tracked ex))"
    unfolding loops_new[OF tracked_distinct] by (simp add: loop1_new_ids comp_def)
  show ?thesis unfolding merge_fst using deref_all_ids[OF refs] m n by simp
qed

lemma merge_ids_distinct:
  assumes "distinct (map ca_canvas_id ups)"
  shows "distinct (filter (\<lambda>i. i \<noteq> None) (map canvas_id (fst (merge u ups sub ex))))"
proof -
  let ?keep = "filter (\<lambda>it. fst it \<notin> ca_canvas_id ` set ups \<and> (fst it \<in> sub \<or> is_set (snd it) ''completed''))
          (tracked ex)"
  have f: "filter (\<lambda>i. i \<noteq> None) (map canvas_id (fst (merge u ups sub ex))) =
           map Some (map ca_canvas_id ups @ map fst ?keep)"
    unfolding merge_canvas_ids by (simp add: filter_map comp_def)
  have d1: "distinct (map fst ?keep)"
    using tracked_distinct[of ex] by (rule distinct_map_filter)
  have d2: "set (map ca_canvas_id ups) \<inter> set (map fst ?keep) = {}" by auto
  have d: "distinct (map ca_canvas_id ups @ map fst ?keep)" using assms d1 d2 by simp
  have i: "inj_on Some (set (map ca_canvas_id ups @ map fst ?keep))" by (rule inj_onI) simp
  from d i show ?thesis unfolding f distinct_map by (rule conjI)
qed

section \<open>Lemmas on the milestone check\<close>

lemma put_same: "get a k = Some v \<Longrightarrow> put a k v = a"
  by (simp add: put_def get_def update_triv)

lemma put_put: "put (put a k v) k w = put a k w"
  by (simp add: put_def)

lemma check_row_past_due:
  assumes "get a ''due_date'' = Some (JStr s)" "fromisoformat s = Some due" "due < today"
  shows "check_row fromisoformat today a = ([], Inr (a, False))"
  using assms by (simp add: check_row_def Let_def)

lemma check_row_list:
  assumes "get a ''due_date'' = Some (JStr s)" "fromisoformat s = Some due" "0 \<le> due - today"
    and "get a ''notifications_sent'' = None \<and> xs = [] \<or> get a ''notifications_sent'' = Some (JList xs)"
  shows "check_row fromisoformat today a =
           (map (notice_for a due) (due_milestones (due - today) xs),
            Inr (put a ''notifications_sent'' (JList (xs @ map JStr (due_milestones (due - today) xs))),
                 due_milestones (due - today) xs \<noteq> []))"
proof -
  have sent: "(case get a ''notifications_sent'' of None \<Rightarrow> JList [] | Some v \<Rightarrow> v) = JList xs"
    using assms(4) by auto
  show ?thesis
    using assms(1,2,3)
    by (simp add: check_row_def Let_def sent fire_def milestone_chain_def due_milestones_def
          milestones_def notice_for_def)
qed

lemma append_tag_Inr: "append_tag v tag = Inr w \<Longrightarrow> \<exists>xs. v = JList xs \<and> w = JList (xs @ [JStr tag])"
  by (cases v) auto

lemma fire_Inr:
  "fire tag course title_name due sent a = (ns, Inr (a', c)) \<Longrightarrow>
   \<exists>xs. sent = JList xs \<and> a' = put a ''notifications_sent'' (JList (xs @ [JStr tag])) \<and> c \<and>
        ns = [\<lparr>n_tag = tag, n_course = course, n_title_name = title_name, n_due = due\<rparr>]"
  by (auto simp: fire_def split: sum.splits dest: append_tag_Inr)

lemma fire_length: "length (fst (fire tag course title_name due sent a)) = 1"
  by (simp add: fire_def)

lemma chain_cases:
  "(milestone_chain d co ti due sent a = ([], Inr (put a ''notifications_sent'' sent, False)) \<and>
      (\<forall>b co' ti' due'. milestone_chain d co' ti' due' sent b = ([], Inr (put b ''notifications_sent'' sent, False)))) \<or>
   (\<exists>e. milestone_chain d co ti due sent a = ([], Inl e)) \<or>
   (\<exists>tag. (d, tag) \<in> set milestones \<and> not_in tag sent = Inr True \<and>
           milestone_chain d co ti due sent a = fire tag co ti due sent a)"
  by (auto simp: milestone_chain_def milestones_def split: sum.splits bool.splits)

lemma chain_after_fire:
  "(d, tag) \<in> set milestones \<Longrightarrow>
   milestone_chain d co ti due (JList (xs @ [JStr tag])) b =
     ([], Inr (put b ''notifications_sent'' (JList (xs @ [JStr tag])), False))"
  by (auto simp: milestone_chain_def milestones_def)


lemma check_row_outcome:
  "check_row f today a = ([], Inr (a, False)) \<or>
   check_row f today a = ([], Inl TypeError) \<or>
   (\<exists>s due. get a ''due_date'' = Some (JStr s) \<and> f s = Some due \<and> 0 \<le> due - today \<and>
      check_row f today a =
        milestone_chain (due - today) (n_course (notice_for a due [])) (n_title_name (notice_for a due []))
          due (sent_value a) a)"
  by (auto simp: check_row_def Let_def notice_for_def sent_value_def split: option.splits json.splits)

lemma check_row_put:
  assumes "get a ''due_date'' = Some (JStr s)" "f s = Some due" "0 \<le> due - today"
  shows "check_row f today (put a ''notifications_sent'' v) =
     milestone_chain (due - today) (n_course (notice_for a due [])) (n_title_name (notice_for a due []))
        due v (put a ''notifications_sent'' v)"
  using assms by (simp add: check_row_def Let_def get_put notice_for_def)

lemma sent_value_put: "sent_value (put a ''notifications_sent'' v) = v"
  by (simp add: sent_value_def get_put)

lemma put_sent_value: "put (put a ''notifications_sent'' v) ''notifications_sent'' v = put a ''notifications_sent'' v"
  by (rule put_put)

lemma check_row_again:
  assumes "check_row f today a = (ns, Inr (a', c))"
  shows "check_row f today a' = ([], Inr (a', False))"
proof -
  from check_row_outcome[of f today a] show ?thesis
  proof (elim disjE exE conjE)
    assume "check_row f today a = ([], Inr (a, False))"
    then show ?thesis using assms by simp
  next
    assume "check_row f today a = ([], Inl TypeError)"
    then show ?thesis using assms by simp
  next
    fix s due
    assume d: "get a ''due_date'' = Some (JStr s)" "f s = Some due" "0 \<le> due - today"
      and ch: "check_row f today a =
        milestone_chain (due - today) (n_course (notice_for a due [])) (n_title_name (notice_for a due []))
          due (sent_value a) a"
    let ?co = "n_course (notice_for a due [])" and ?ti = "n_title_name (notice_for a due [])"
    from chain_cases[of "due - today" ?co ?ti due "sent_value a" a] show ?thesis
    proof (elim disjE exE conjE)
      assume 1: "milestone_chain (due - today) ?co ?ti due (sent_value a) a =
                  ([], Inr (put a ''notifications_sent'' (sent_value a), False))"
        and 2: "\<forall>b co' ti' due'. milestone_chain (due - today) co' ti' due' (sent_value a) b =
                  ([], Inr (put b ''notifications_sent'' (sent_value a), False))"
      from 1 ch assms have a': "a' = put a ''notifications_sent'' (sent_value a)" by simp
      show ?thesis unfolding a' check_row_put[where f=f and s=s, OF d] using 2 by (simp add: put_put)
    next
      fix e assume "milestone_chain (due - today) ?co ?ti due (sent_value a) a = ([], Inl e)"
      then show ?thesis using ch assms by simp
    next
      fix tag assume m: "(due - today, tag) \<in> set milestones"
        and 3: "milestone_chain (due - today) ?co ?ti due (sent_value a) a =
                 fire tag ?co ?ti due (sent_value a) a"
      from 3 ch assms have "fire tag ?co ?ti due (sent_value a) a = (ns, Inr (a', c))" by simp
      from fire_Inr[OF this] obtain xs where
        a': "a' = put a ''notifications_sent'' (JList (xs @ [JStr tag]))" by auto
      show ?thesis unfolding a' check_row_put[where f=f and s=s, OF d] chain_after_fire[OF m] by (simp add: put_put)
    qed
  qed
qed

lemma check_row_changes:
  assumes "check_row f today a = (ns, Inr (a', c))"
  shows "a' = a \<or> (\<exists>v. a' = put a ''notifications_sent'' v)"
proof -
  from check_row_outcome[of f today a] show ?thesis
  proof (elim disjE exE conjE)
    fix s due
    assume ch: "check_row f today a =
        milestone_chain (due - today) (n_course (notice_for a due [])) (n_title_name (notice_for a due []))
          due (sent_value a) a"
    let ?co = "n_course (notice_for a due [])" and ?ti = "n_title_name (notice_for a due [])"
    from chain_cases[of "due - today" ?co ?ti due "sent_value a" a] show ?thesis
    proof (elim disjE exE conjE)
      fix tag assume 3: "milestone_chain (due - today) ?co ?ti due (sent_value a) a =
                 fire tag ?co ?ti due (sent_value a) a"
      from 3 ch assms have "fire tag ?co ?ti due (sent_value a) a = (ns, Inr (a', c))" by simp
      from fire_Inr[OF this] show ?thesis by auto
    qed (use ch assms in auto)
  qed (use assms in auto)
qed

lemma sent_list_put: "sent_list (put a ''notifications_sent'' (JList xs)) = xs"
  by (simp add: sent_list_def get_put)

lemma sent_list_put_value: "sent_list (put a ''notifications_sent'' (sent_value a)) = sent_list a"
  by (auto simp: sent_list_def sent_value_def get_put split: option.splits json.splits)

lemma sent_value_list: "sent_value a = JList xs \<Longrightarrow> sent_list a = xs"
  by (auto simp: sent_list_def sent_value_def split: option.splits json.splits)

lemma check_row_grows:
  assumes "check_row f today a = (ns, Inr (a', c))"
  shows "set (sent_list a) \<subseteq> set (sent_list a')"
proof -
  from check_row_outcome[of f today a] show ?thesis
  proof (elim disjE exE conjE)
    fix s due
    assume ch: "check_row f today a =
        milestone_chain (due - today) (n_course (notice_for a due [])) (n_title_name (notice_for a due []))
          due (sent_value a) a"
    let ?co = "n_course (notice_for a due [])" and ?ti = "n_title_name (notice_for a due [])"
    from chain_cases[of "due - today" ?co ?ti due "sent_value a" a] show ?thesis
    proof (elim disjE exE conjE)
      assume 1: "milestone_chain (due - today) ?co ?ti due (sent_value a) a =
                  ([], Inr (put a ''notifications_sent'' (sent_value a), False))"
      from 1 ch assms have a': "a' = put a ''notifications_sent'' (sent_value a)" by simp
      show ?thesis unfolding a' by (simp add: sent_list_put_value)
    next
      fix tag assume 3: "milestone_chain (due - today) ?co ?ti due (sent_value a) a =
                 fire tag ?co ?ti due (sent_value a) a"
      from 3 ch assms have "fire tag ?co ?ti due (sent_value a) a = (ns, Inr (a', c))" by simp
      from fire_Inr[OF this] obtain xs where
        "sent_value a = JList xs" "a' = put a ''notifications_sent'' (JList (xs @ [JStr tag]))" by auto
      then show ?thesis by (auto simp add: sent_list_put sent_value_list)
    qed (use ch assms in auto)
  qed (use assms in auto)
qed

lemma not_in_sent_list: "not_in tag (sent_value a) = Inr True \<Longrightarrow> JStr tag \<notin> set (sent_list a)"
  by (auto simp: sent_list_def sent_value_def split: option.splits json.splits)

lemma check_row_notices:
  "fst (check_row f today a) = [] \<or>
   (\<exists>tag s due. get a ''due_date'' = Some (JStr s) \<and> f s = Some due \<and>
      (due - today, tag) \<in> set milestones \<and> JStr tag \<notin> set (sent_list a) \<and>
      fst (check_row f today a) = [notice_for a due tag])"
proof -
  from check_row_outcome[of f today a] show ?thesis
  proof (elim disjE exE conjE)
    fix s due
    assume d: "get a ''due_date'' = Some (JStr s)" "f s = Some due"
     and ch: "check_row f today a =
        milestone_chain (due - today) (n_course (notice_for a due [])) (n_title_name (notice_for a due []))
          due (sent_value a) a"
    let ?co = "n_course (notice_for a due [])" and ?ti = "n_title_name (notice_for a due [])"
    from chain_cases[of "due - today" ?co ?ti due "sent_value a" a] show ?thesis
    proof (elim disjE exE conjE)
      fix tag assume m: "(due - today, tag) \<in> set milestones" and n: "not_in tag (sent_value a) = Inr True"
        and 3: "milestone_chain (due - today) ?co ?ti due (sent_value a) a =
                 fire tag ?co ?ti due (sent_value a) a"
      have "fst (check_row f today a) = [notice_for a due tag]"
        unfolding ch 3 by (simp add: fire_def notice_for_def)
      then show ?thesis using d m not_in_sent_list[OF n] by blast
    qed (use ch in auto)
  qed auto
qed

lemma check_all_Inr:
  "check_all f today rows = (ns, Inr (rows', ch)) \<Longrightarrow>
   list_all2 (\<lambda>a a'. \<exists>n c. check_row f today a = (n, Inr (a', c))) rows rows' \<and>
   ns = concat (map (\<lambda>a. fst (check_row f today a)) rows)"
proof (induction rows arbitrary: ns rows' ch)
  case Nil then show ?case by simp
next
  case (Cons a rows)
  then show ?case
    by (auto split: prod.splits sum.splits)
qed

lemma check_all_again:
  "check_all f today rows = (ns, Inr (rows', ch)) \<Longrightarrow>
   check_all f today rows' = ([], Inr (rows', False))"
proof (induction rows arbitrary: ns rows' ch)
  case Nil then show ?case by simp
next
  case (Cons a rows)
  then show ?case
    by (auto split: prod.splits sum.splits dest: check_row_again)
qed

lemma repeat_checks_fixed:
  "check_all f today rows = ([], Inr (rows, False)) \<Longrightarrow>
   repeat_checks f today n rows = Some (replicate n [], rows)"
  by (induction n) auto

lemma due_milestones_iff:
  "\<forall>(k, tag) \<in> set milestones. tag \<in> set (due_milestones d xs) \<longleftrightarrow> (d = k \<and> JStr tag \<notin> set xs)"
  by (auto simp: due_milestones_def milestones_def)

lemma check_example:
  "check_all iso_days 739682 [new_row ''u'' essay] =
     ([notice_for (new_row ''u'' essay) 739685 ''3_days''],
      Inr ([put (new_row ''u'' essay) ''notifications_sent'' (JList [JStr ''3_days''])], True))"
  by (simp add: check_row_def milestone_chain_def fire_def Let_def get_def new_row_def essay_def
        iso_days_def notice_for_def)

lemma check_row_unchanged_silent:
  assumes "check_row f today a = (ns, Inr (a', False))"
  shows "ns = []"
proof -
  from check_row_notices[of f today a] show ?thesis
  proof (elim disjE exE conjE)
    assume "fst (check_row f today a) = []" then show ?thesis using assms by simp
  next
    fix tag s due
    assume d: "get a ''due_date'' = Some (JStr s)" "f s = Some due"
      and n: "fst (check_row f today a) = [notice_for a due tag]"
    from check_row_outcome[of f today a] show ?thesis
    proof (elim disjE exE conjE)
      fix s' due'
      assume ch: "check_row f today a =
        milestone_chain (due' - today) (n_course (notice_for a due' [])) (n_title_name (notice_for a due' []))
          due' (sent_value a) a"
      let ?co = "n_course (notice_for a due' [])" and ?ti = "n_title_name (notice_for a due' [])"
      from chain_cases[of "due' - today" ?co ?ti due' "sent_value a" a] show ?thesis
      proof (elim disjE exE conjE)
        fix tag' assume 3: "milestone_chain (due' - today) ?co ?ti due' (sent_value a) a =
                 fire tag' ?co ?ti due' (sent_value a) a"
        from 3 ch assms have "fire tag' ?co ?ti due' (sent_value a) a = (ns, Inr (a', False))" by simp
        from fire_Inr[OF this] show ?thesis by simp
      qed (use ch assms n in auto)
    qed (use assms n in auto)
  qed
qed

lemma check_all_unchanged_silent:
  "check_all f today rows = (ns, Inr (rows', False)) \<Longrightarrow> ns = []"
proof (induction rows arbitrary: ns rows')
  case Nil then show ?case by simp
next
  case (Cons a rows)
  then show ?case
    by (auto split: prod.splits sum.splits dest: check_row_unchanged_silent)
qed

lemma run_checks_again:
  assumes "run_checks f today doc = (ns, None, doc')"
  shows "run_checks f today doc' = ([], None, doc')"
proof (cases doc)
  case Missing then show ?thesis using assms by (simp add: run_checks_def)
next
  case Corrupt then show ?thesis using assms by (simp add: run_checks_def)
next
  case (Document data)
  let ?rows = "case assignments data of None \<Rightarrow> [] | Some rs \<Rightarrow> rs"
  from assms Document obtain rows' changed where
    c: "check_all f today ?rows = (ns, Inr (rows', changed))"
    and f': "doc' = (if changed then Document (data\<lparr>assignments := Some rows'\<rparr>) else doc)"
    by (auto simp: run_checks_def split: prod.splits sum.splits)
  show ?thesis
  proof (cases changed)
    case True
    have "check_all f today rows' = ([], Inr (rows', False))" using c by (rule check_all_again)
    then show ?thesis using f' True by (simp add: run_checks_def)
  next
    case False
    then have "check_all f today ?rows = (ns, Inr (rows', False))" using c by simp
    then have "ns = []" by (rule check_all_unchanged_silent)
    then show ?thesis using assms f' False by simp
  qed
qed

lemma merge_completed_kept:
  assumes "r \<in> set (fst (merge u ups sub ex))" "canvas_id r = Some c"
    "map_of (tracked ex) c = Some r0" "is_set r0 ''completed''"
  shows "get r ''completed'' = get r0 ''completed''"
proof -
  from merge_rows_cases[OF assms(1)] show ?thesis
  proof (elim disjE conjE exE bexE)
    assume "canvas_id r = None" then show ?thesis using assms(2) by simp
  next
    fix c' r1 assume "map_of (tracked ex) c' = Some r1" "r = merged_row ups sub c' r1" "canvas_id r = Some c'"
    then have "r = merged_row ups sub c r0" using assms(2,3) by simp
    then show ?thesis using assms(4) by (simp add: merged_row_def get_refresh_all_other)
  next
    fix ca n assume "map_of (tracked ex) (ca_canvas_id ca) = None" "r = new_row (u n) ca"
    then show ?thesis using assms(2,3) by (auto simp: new_row_def)
  qed
qed

lemma merge_manual_in:
  assumes "r \<in> set (fst (merge u ups sub ex))" "canvas_id r = None"
  shows "r \<in> set ex"
proof -
  have "r \<in> set (filter (\<lambda>r. canvas_id r = None) (fst (merge u ups sub ex)))" using assms by simp
  then show ?thesis unfolding merge_manual_rows by simp
qed

lemma check_row_keeps_completed:
  assumes "check_row f today a = (ns, Inr (a', c))"
  shows "get a' ''completed'' = get a ''completed''"
  using check_row_changes[OF assms] by (auto simp: get_put)

lemma check_all_keeps_completed:
  assumes "check_all f today rows = (ns, Inr (rows', ch))"
  shows "list_all2 (\<lambda>a a'. get a' ''completed'' = get a ''completed'') rows rows'"
proof -
  from check_all_Inr[OF assms]
  have l: "list_all2 (\<lambda>a a'. \<exists>n c. check_row f today a = (n, Inr (a', c))) rows rows'" by simp
  show ?thesis by (rule list_all2_mono[OF l]) (auto dest: check_row_keeps_completed)
qed

lemma merge_example7:
  "fst (merge uuids [] {} [row7]) = [row7]"
  by (simp add: merge_def merge_loops_def leftover_step_def deref_all_def is_set_def get_def
        row7_def Let_def)

lemma check_example7:
  "check_all iso_days 739682 [row7] =
     ([notice_for row7 739685 ''3_days''],
      Inr ([put row7 ''notifications_sent'' (JList [JStr ''3_days''])], True))"
  by (simp add: check_row_def milestone_chain_def fire_def Let_def get_def row7_def
        iso_days_def notice_for_def)

section \<open>Lemmas on the fetch and on sync\<close>

lemma get_pages_done: "get_pages urlopen base tok results None w = Some (Inr results, w)"
  by (subst get_pages.simps) simp

lemma get_pages_first:
  "u \<noteq> [] \<Longrightarrow> get_pages urlopen base tok results (Some u) w =
     (case urlopen w u tok of
        (HTTPError code reason, w') \<Rightarrow>
          if code = 401 then Some (Inl (RuntimeError TokenInvalid), w')
          else Some (Inl (RuntimeError (CanvasHTTP code reason)), w')
      | (URLError reason, w') \<Rightarrow> Some (Inl (RuntimeError (Unreachable base reason)), w')
      | (Failed, w') \<Rightarrow> Some (Inl OtherError, w')
      | (Response page link_header, w') \<Rightarrow>
          get_pages urlopen base tok
            (case page of Page_List xs \<Rightarrow> results @ xs | Page_Other \<Rightarrow> results)
            (next_url link_header) w')"
  by (subst get_pages.simps) simp





lemma build_course_map_keys:
  "distinct (map fst m) \<Longrightarrow>
   distinct (map fst (build_course_map cs m)) \<and>
   fst ` set (build_course_map cs m) =
     fst ` set m \<union> {cid. cid \<noteq> 0 \<and> (\<exists>c. Some c \<in> set cs \<and> course_id c = Some cid)}"
proof (induction cs m rule: build_course_map.induct)
  case (1 m) then show ?case by simp
next
  case (2 cs m) then show ?case by simp
next
  case (3 c cs m)
  show ?case
  proof (cases "course_id c")
    case None
    then show ?thesis using 3 by auto
  next
    case (Some cid)
    show ?thesis
    proof (cases "cid = 0")
      case True
      then show ?thesis using 3 Some by auto
    next
      case False
      have d: "distinct (map fst (AList.update cid (course_label cid c) m))"
        using 3(4) by (simp add: distinct_update)
      have k: "fst ` set (AList.update cid (course_label cid c) m) = insert cid (fst ` set m)"
        by (simp add: dom_update)
      from 3(3)[OF Some False d] k show ?thesis using Some False by auto
    qed
  qed
qed

lemma course_map_length:
  "length (build_course_map cs []) =
     card {cid. cid \<noteq> 0 \<and> (\<exists>c. Some c \<in> set cs \<and> course_id c = Some cid)}"
proof -
  from build_course_map_keys[of "[]" cs]
  have d: "distinct (map fst (build_course_map cs []))"
    and k: "fst ` set (build_course_map cs []) =
              {cid. cid \<noteq> 0 \<and> (\<exists>c. Some c \<in> set cs \<and> course_id c = Some cid)}" by auto
  have "card (fst ` set (build_course_map cs [])) = length (build_course_map cs [])"
    using distinct_card[OF d] by simp
  then show ?thesis unfolding k by simp
qed

lemma collect_upcoming_course:
  "collect_upcoming ld today cname raw acc = Inr ups \<Longrightarrow>
   ca_course ` set ups \<subseteq> insert cname (ca_course ` set acc)"
proof (induction ld today cname raw acc rule: collect_upcoming.induct)
  case (1 ld today cname acc) then show ?case by auto
next
  case (2 ld today cname raw acc) then show ?case by simp
next
  case (3 ld today cname a raw acc)
  then show ?case
    by (auto split: option.splits if_splits)
qed

lemma fetch_course_course:
  "fetch_course api ld today base tok item acc w = Some (Inr acc', w') \<Longrightarrow>
   ca_course ` set (fst acc') \<subseteq> insert (snd item) (ca_course ` set (fst acc))"
proof -
  assume "fetch_course api ld today base tok item acc w = Some (Inr acc', w')"
  then obtain raw where "collect_upcoming ld today (snd item) raw (fst acc) = Inr (fst acc')"
    by (auto simp: fetch_course_def split: option.splits sum.splits prod.splits)
  then show ?thesis by (rule collect_upcoming_course)
qed

lemma fetch_courses_course:
  "fetch_courses api ld today base tok cm acc w = Some (Inr acc', w') \<Longrightarrow>
   ca_course ` set (fst acc') \<subseteq> ca_course ` set (fst acc) \<union> snd ` set cm"
proof (induction cm arbitrary: acc w)
  case Nil then show ?case by simp
next
  case (Cons item cm)
  from Cons.prems obtain acc1 w1 where
    1: "fetch_course api ld today base tok item acc w = Some (Inr acc1, w1)"
    and 2: "fetch_courses api ld today base tok cm acc1 w1 = Some (Inr acc', w')"
    by (auto split: option.splits sum.splits prod.splits)
  from fetch_course_course[OF 1] Cons.IH[OF 2] show ?case by (simp add: subset_iff) blast
qed

lemma card_courses_le:
  assumes "ca_course ` set ups \<subseteq> snd ` set cm"
  shows "card (ca_course ` set ups) \<le> length cm"
proof -
  have "card (ca_course ` set ups) \<le> card (snd ` set cm)"
    using assms by (simp add: card_mono)
  also have "\<dots> \<le> card (set cm)" by (simp add: card_image_le)
  also have "\<dots> \<le> length cm" by (rule card_length)
  finally show ?thesis .
qed

lemma fetch_Inr:
  assumes "fetch capi aapi ld today base tok w = Some (Inr (cm, ups, subs), w2)"
  shows "\<exists>raw_courses w1. get_all capi base tok courses_path w = Some (Inr raw_courses, w1) \<and>
           cm = build_course_map raw_courses [] \<and> ca_course ` set ups \<subseteq> snd ` set cm"
proof -
  from assms obtain raw_courses w1 where
    1: "get_all capi base tok courses_path w = Some (Inr raw_courses, w1)"
    and 2: "fetch_courses aapi ld today base tok (build_course_map raw_courses []) ([], {}) w1 =
              Some (Inr (ups, subs), w2)"
    and 3: "cm = build_course_map raw_courses []"
    by (auto simp: fetch_def split: option.splits sum.splits prod.splits)
  from fetch_courses_course[OF 2] 3 have "ca_course ` set ups \<subseteq> snd ` set cm" by simp
  with 1 3 show ?thesis by blast
qed

lemma next_url_empty: "next_url [] = None"
  by (simp add: next_url_def strip_chars_def rstrip_chars_def)

lemma get_all_single_page:
  assumes "path \<noteq> []" and "urlopen w (base @ path) tok = (Response (Page_List xs) [], w')"
  shows "get_all urlopen base tok path w = Some (Inr xs, w')"
proof -
  have "base @ path \<noteq> []" using assms(1) by simp
  from get_pages_first[OF this, of urlopen base tok "[]" w] assms(2)
  show ?thesis by (simp add: get_all_def next_url_empty get_pages_done)
qed

lemma get_all_one_course:
  "get_all one_course ''https://canvas.test'' ''secret'' courses_path w = Some (Inr [Some biology], w)"
  by (rule get_all_single_page) (simp_all add: courses_path_def one_course_def)

lemma get_all_no_assignments:
  "get_all no_assignments base tok (bucket_path cid q) () = Some (Inr [], ())"
  by (rule get_all_single_page) (simp_all add: bucket_path_def no_assignments_def)

lemma fetch_one_course:
  "fetch one_course no_assignments no_date ''2026-03-07'' ''https://canvas.test'' ''secret'' () =
     Some (Inr ([(1, ''Biology'')], [], {}), ())"
  by (simp add: fetch_def get_all_one_course biology_def course_label_def fetch_course_def
        get_all_or_empty_def get_all_no_assignments)

lemma sync_one_course:
  "sync test_config one_course no_assignments no_date ''2026-03-07'' uuids () Missing =
     Some (Inr \<lparr>ok = True, s_added = 0, s_updated = 0, s_removed = 0, s_auto_completed = 0,
                total_canvas = 0, courses = 1\<rparr>,
           save_assignments [])"
  by (simp add: sync_def load_config_def test_config_def rstrip_chars_def fetch_one_course
        load_assignments_def merge_def merge_loops_def deref_all_def Let_def)

lemma day_order: "\<not> (''2026-03-10'' :: string) < ''2026-03-07''"
  by code_simp

lemma collect_twice:
  "collect_upcoming utc_day ''2026-03-07'' ''Biology'' [Some essay_item, Some essay_item] [] =
     Inr [\<lparr>ca_canvas_id = 5, ca_title = ''Essay'', ca_course = ''Biology'', ca_due_date = ''2026-03-10''\<rparr>,
          \<lparr>ca_canvas_id = 5, ca_title = ''Essay'', ca_course = ''Biology'', ca_due_date = ''2026-03-10''\<rparr>]"
  using day_order
  by (simp add: essay_item_def parse_due_date_def utc_day_def replace_Z_def)

lemma fetch_twice:
  "fetch one_course listed_twice utc_day ''2026-03-07'' ''https://canvas.test'' ''secret'' 0 =
     Some (Inr ([(1, ''Biology'')],
                [\<lparr>ca_canvas_id = 5, ca_title = ''Essay'', ca_course = ''Biology'', ca_due_date = ''2026-03-10''\<rparr>,
                 \<lparr>ca_canvas_id = 5, ca_title = ''Essay'', ca_course = ''Biology'', ca_due_date = ''2026-03-10''\<rparr>],
                {}), 3)"
proof -
  have u: "get_all listed_twice ''https://canvas.test'' ''secret'' (bucket_path 1 q) 0 =
             Some (Inr [Some essay_item, Some essay_item], Suc 0)" for q
    by (rule get_all_single_page) (simp_all add: bucket_path_def listed_twice_def)
  have e: "get_all listed_twice ''https://canvas.test'' ''secret'' (bucket_path 1 q) (Suc n) =
             Some (Inr [], Suc (Suc n))" for q n
    by (rule get_all_single_page) (simp_all add: bucket_path_def listed_twice_def)
  show ?thesis
    by (simp add: fetch_def get_all_one_course biology_def course_label_def fetch_course_def get_all_or_empty_def u e
          collect_twice numeral_3_eq_3 del: collect_upcoming.simps)
qed

lemma sync_listed_twice:
  "sync test_config one_course listed_twice utc_day ''2026-03-07'' uuids 0 Missing =
     Some (Inr \<lparr>ok = True, s_added = 2, s_updated = 0, s_removed = 0, s_auto_completed = 0,
                total_canvas = 2, courses = 1\<rparr>,
           save_assignments
             [new_row ''u'' \<lparr>ca_canvas_id = 5, ca_title = ''Essay'', ca_course = ''Biology'', ca_due_date = ''2026-03-10''\<rparr>,
              new_row ''uu'' \<lparr>ca_canvas_id = 5, ca_title = ''Essay'', ca_course = ''Biology'', ca_due_date = ''2026-03-10''\<rparr>])"
  by (simp add: sync_def load_config_def test_config_def rstrip_chars_def fetch_twice
        load_assignments_def merge_def merge_loops_def upcoming_step_def deref_all_def uuids_def Let_def)

section \<open>Lemmas on repeated assignments to a row\<close>






section \<open>The claims\<close>

text \<open>
  C1. The claim is that the \<^verbatim>\<open>canvas_id\<close> values of the saved rows are pairwise
  distinct even when \<^verbatim>\<open>canvas_upcoming\<close> has two elements with the same id. With no
  local rows and the same assignment twice in \<^verbatim>\<open>canvas_upcoming\<close>, the merge yields two
  rows with the id 5: \<^verbatim>\<open>by_canvas_id\<close> is not extended by the new row, so the second
  element is taken for new again. The same in a whole run of \<^verbatim>\<open>sync\<close>, when the
  upcoming page of a course lists an assignment twice and there is no local file. (When
  the ids of \<^verbatim>\<open>canvas_upcoming\<close> are pairwise distinct, so are those of the saved rows:
  \<open>merge_ids_distinct\<close>.)
\<close>

theorem duplicate_upcoming_gives_duplicate_rows:
  "fst (merge uuids [essay, essay] {} []) = [new_row ''u'' essay, new_row ''uu'' essay] \<and>
   map canvas_id (fst (merge uuids [essay, essay] {} [])) = [Some 5, Some 5] \<and>
   \<not> distinct (map canvas_id (fst (merge uuids [essay, essay] {} []))) \<and>
   sync test_config one_course listed_twice utc_day ''2026-03-07'' uuids 0 Missing =
     Some (Inr \<lparr>ok = True, s_added = 2, s_updated = 0, s_removed = 0, s_auto_completed = 0,
                total_canvas = 2, courses = 1\<rparr>,
           save_assignments
             [new_row ''u'' \<lparr>ca_canvas_id = 5, ca_title = ''Essay'', ca_course = ''Biology'',
                              ca_due_date = ''2026-03-10''\<rparr>,
              new_row ''uu'' \<lparr>ca_canvas_id = 5, ca_title = ''Essay'', ca_course = ''Biology'',
                               ca_due_date = ''2026-03-10''\<rparr>])"
proof -
  have "fst (merge uuids [essay, essay] {} []) = [new_row ''u'' essay, new_row ''uu'' essay]"
    by (simp add: merge_def merge_loops_def upcoming_step_def deref_all_def uuids_def Let_def)
  then show ?thesis using sync_listed_twice by (simp add: new_row_def essay_def)
qed

text \<open>
  C2. The claim is that \<^verbatim>\<open>courses\<close> is the number of distinct course names among the
  elements of \<^verbatim>\<open>canvas_upcoming\<close>. With one course that has no upcoming assignment,
  \<^verbatim>\<open>canvas_upcoming\<close> is empty and \<^verbatim>\<open>courses\<close> is 1.
\<close>

theorem courses_not_course_names_counterexample:
  "fetch one_course no_assignments no_date ''2026-03-07'' ''https://canvas.test'' ''secret'' () =
     Some (Inr ([(1, ''Biology'')], [], {}), ()) \<and>
   sync test_config one_course no_assignments no_date ''2026-03-07'' uuids () Missing =
     Some (Inr \<lparr>ok = True, s_added = 0, s_updated = 0, s_removed = 0, s_auto_completed = 0,
                total_canvas = 0, courses = 1\<rparr>,
           save_assignments []) \<and>
   courses \<lparr>ok = True, s_added = 0, s_updated = 0, s_removed = 0, s_auto_completed = 0,
            total_canvas = 0, courses = 1\<rparr> \<noteq> card (ca_course ` set ([] :: upcoming list))"
  using fetch_one_course sync_one_course by simp

text \<open>
  C2, as the code has it: when \<^verbatim>\<open>sync\<close> returns a summary, \<^verbatim>\<open>courses\<close> is the length of
  \<^verbatim>\<open>course_map\<close>, which is the number of distinct non-zero ids among the dicts of the
  fetched course list (the courses checked); the number of distinct course names among
  the elements of \<^verbatim>\<open>canvas_upcoming\<close> is at most that.
\<close>

theorem courses_counts_course_map:
  assumes "sync config_file courses_api assignments_api local_day today_str ids w doc = Some (Inr s, doc')"
  shows "\<exists>base_url tok raw_courses w1 canvas_upcoming submitted_canvas_ids w2.
           load_config config_file = Inr (base_url, tok) \<and>
           get_all courses_api base_url tok courses_path w = Some (Inr raw_courses, w1) \<and>
           fetch courses_api assignments_api local_day today_str base_url tok w =
             Some (Inr (build_course_map raw_courses [], canvas_upcoming, submitted_canvas_ids), w2) \<and>
           courses s = length (build_course_map raw_courses []) \<and>
           courses s = card {cid. cid \<noteq> 0 \<and> (\<exists>c. Some c \<in> set raw_courses \<and> course_id c = Some cid)} \<and>
           card (ca_course ` set canvas_upcoming) \<le> courses s"
proof -
  from assms obtain base_url tok cm ups subs w2 where
    c: "load_config config_file = Inr (base_url, tok)"
    and f: "fetch courses_api assignments_api local_day today_str base_url tok w = Some (Inr (cm, ups, subs), w2)"
    and s: "courses s = length cm"
    by (auto simp: sync_def split: sum.splits option.splits prod.splits)
  from fetch_Inr[OF f] obtain raw_courses w1 where
    g: "get_all courses_api base_url tok courses_path w = Some (Inr raw_courses, w1)"
    and cm: "cm = build_course_map raw_courses []"
    and sub: "ca_course ` set ups \<subseteq> snd ` set cm" by blast
  have "card (ca_course ` set ups) \<le> courses s" using card_courses_le[OF sub] s by simp
  moreover have "courses s = card {cid. cid \<noteq> 0 \<and> (\<exists>c. Some c \<in> set raw_courses \<and> course_id c = Some cid)}"
    using s cm course_map_length[of raw_courses] by simp
  ultimately show ?thesis using c g f s cm by blast
qed

theorem courses_counts_course_map_witness:
  "sync test_config one_course no_assignments no_date ''2026-03-07'' uuids () Missing =
     Some (Inr \<lparr>ok = True, s_added = 0, s_updated = 0, s_removed = 0, s_auto_completed = 0,
                total_canvas = 0, courses = 1\<rparr>,
           save_assignments []) \<and>
   get_all one_course ''https://canvas.test'' ''secret'' courses_path () = Some (Inr [Some biology], ()) \<and>
   length (build_course_map [Some biology] []) = 1"
proof -
  from courses_counts_course_map[OF sync_one_course] obtain base_url tok raw_courses w1 where
    c: "load_config test_config = Inr (base_url, tok)"
    and g: "get_all one_course base_url tok courses_path () = Some (Inr raw_courses, w1)"
    and l: "courses \<lparr>ok = True, s_added = 0, s_updated = 0, s_removed = 0, s_auto_completed = 0,
                total_canvas = 0, courses = 1\<rparr> = length (build_course_map raw_courses [])"
    by blast
  have "load_config test_config = Inr (''https://canvas.test'', ''secret'')"
    by (simp add: load_config_def test_config_def rstrip_chars_def)
  with c have "base_url = ''https://canvas.test''" "tok = ''secret''" by simp_all
  with g get_all_one_course[of "()"] have "raw_courses = [Some biology]" by simp
  with l have "length (build_course_map [Some biology] []) = 1" by simp
  with sync_one_course get_all_one_course[of "()"] show ?thesis by blast
qed

text \<open>
  C3. For every list of local rows and every remote input, the rows without a
  \<^verbatim>\<open>canvas_id\<close> in the list that \<^verbatim>\<open>sync\<close> saves are the rows without a \<^verbatim>\<open>canvas_id\<close>
  of the local list: the same rows, unchanged, in the same order, none missing and
  none added.
\<close>

theorem manual_rows_untouched:
  "filter (\<lambda>r. canvas_id r = None) (fst (merge uuid4 canvas_upcoming submitted_canvas_ids existing)) =
   filter (\<lambda>r. canvas_id r = None) existing"
  by (rule merge_manual_rows)

text \<open>
  C4. Neither component reverts \<^verbatim>\<open>completed\<close>. In the list \<^verbatim>\<open>sync\<close> saves, a row
  without a \<^verbatim>\<open>canvas_id\<close> is a local row as it was; and when the local row with a
  \<^verbatim>\<open>canvas_id\<close> (the last one, should several share the id) has \<^verbatim>\<open>completed\<close> set, every
  saved row with that id has the \<^verbatim>\<open>completed\<close> value of the local row. In a pass of the
  milestone check that returns, every row has the \<^verbatim>\<open>completed\<close> value it had.
\<close>

theorem completed_never_reverted:
  "(\<forall>r \<in> set (fst (merge uuid4 canvas_upcoming submitted_canvas_ids existing)).
      (canvas_id r = None \<longrightarrow> r \<in> set existing) \<and>
      (\<forall>c r0. canvas_id r = Some c \<and> find (\<lambda>x. canvas_id x = Some c) (rev existing) = Some r0 \<and>
               is_set r0 ''completed'' \<longrightarrow>
         get r ''completed'' = get r0 ''completed'')) \<and>
   (\<forall>ns rows' changed.
      check_all fromisoformat today rows = (ns, Inr (rows', changed)) \<longrightarrow>
        list_all2 (\<lambda>a a'. get a' ''completed'' = get a ''completed'') rows rows')"
  using merge_completed_kept merge_manual_in check_all_keeps_completed
  unfolding tracked_last by blast

theorem completed_never_reverted_witness:
  "fst (merge uuids [] {} [row7]) = [row7] \<and> canvas_id row7 = Some 7 \<and>
   find (\<lambda>x. canvas_id x = Some 7) (rev [row7]) = Some row7 \<and> is_set row7 ''completed'' \<and>
   get row7 ''completed'' = Some (JBool True) \<and>
   check_all iso_days 739682 [row7] =
     ([notice_for row7 739685 ''3_days''],
      Inr ([put row7 ''notifications_sent'' (JList [JStr ''3_days''])], True)) \<and>
   get (put row7 ''notifications_sent'' (JList [JStr ''3_days''])) ''completed'' = Some (JBool True)"
proof -
  have h1: "canvas_id row7 = Some 7" by (simp add: row7_def)
  have h2: "find (\<lambda>x. canvas_id x = Some 7) (rev [row7]) = Some row7" by (simp add: row7_def)
  have h3: "is_set row7 ''completed''" by (simp add: is_set_def get_def row7_def)
  have g: "get row7 ''completed'' = Some (JBool True)" by (simp add: get_def row7_def)
  note inst = completed_never_reverted[of uuids "[]" "{}" "[row7]" iso_days 739682 "[row7]"]
  from inst check_example7
  have "list_all2 (\<lambda>a a'. get a' ''completed'' = get a ''completed'') [row7]
          [put row7 ''notifications_sent'' (JList [JStr ''3_days''])]" by blast
  then have c: "get (put row7 ''notifications_sent'' (JList [JStr ''3_days''])) ''completed'' = Some (JBool True)"
    using g by simp
  from merge_example7 h1 h2 h3 g check_example7 c show ?thesis by blast
qed




text \<open>
  C6. For a row whose due date parses and is not before today, with a list (or
  nothing) as \<^verbatim>\<open>notifications_sent\<close>, one check sends a banner for exactly the
  milestones of \<open>due_milestones\<close>: those whose value equals \<^verbatim>\<open>days_until\<close> and whose
  tag is not in the list. Each of them fires in this pass; in the row the check leaves,
  \<^verbatim>\<open>notifications_sent\<close> is the old list with their tags appended and every other key
  is as it was; \<^verbatim>\<open>changed\<close> is set exactly when one fired.
\<close>

theorem milestone_fires_iff_due_and_new:
  assumes "get a ''due_date'' = Some (JStr s)" and "fromisoformat s = Some due" and "0 \<le> due - today"
    and "get a ''notifications_sent'' = None \<and> xs = [] \<or> get a ''notifications_sent'' = Some (JList xs)"
  shows "check_row fromisoformat today a =
           (map (notice_for a due) (due_milestones (due - today) xs),
            Inr (put a ''notifications_sent'' (JList (xs @ map JStr (due_milestones (due - today) xs))),
                 due_milestones (due - today) xs \<noteq> [])) \<and>
         (\<forall>(k, tag) \<in> set milestones.
            tag \<in> set (due_milestones (due - today) xs) \<longleftrightarrow> (due - today = k \<and> JStr tag \<notin> set xs)) \<and>
         (\<forall>notices a' changed.
            check_row fromisoformat today a = (notices, Inr (a', changed)) \<longrightarrow>
              map n_tag notices = due_milestones (due - today) xs \<and>
              get a' ''notifications_sent'' =
                Some (JList (xs @ map JStr (due_milestones (due - today) xs))) \<and>
              sent_list a' = xs @ map JStr (due_milestones (due - today) xs) \<and>
              (\<forall>tag \<in> set (due_milestones (due - today) xs). JStr tag \<in> set (sent_list a')) \<and>
              (\<forall>k. k \<noteq> ''notifications_sent'' \<longrightarrow> get a' k = get a k) \<and>
              canvas_id a' = canvas_id a \<and>
              changed = (due_milestones (due - today) xs \<noteq> []))"
proof -
  let ?fired = "due_milestones (due - today) xs"
  have eq: "check_row fromisoformat today a =
           (map (notice_for a due) ?fired,
            Inr (put a ''notifications_sent'' (JList (xs @ map JStr ?fired)), ?fired \<noteq> []))"
    by (rule check_row_list[where fromisoformat=fromisoformat and s=s, OF assms])
  have iff: "\<forall>(k, tag) \<in> set milestones.
            tag \<in> set ?fired \<longleftrightarrow> (due - today = k \<and> JStr tag \<notin> set xs)"
    by (rule due_milestones_iff)
  have tags: "map n_tag (map (notice_for a due) ?fired) = ?fired"
    by (induction ?fired) (simp_all add: notice_for_def comp_def)
  have res: "\<forall>notices a' changed.
            check_row fromisoformat today a = (notices, Inr (a', changed)) \<longrightarrow>
              map n_tag notices = ?fired \<and>
              get a' ''notifications_sent'' = Some (JList (xs @ map JStr ?fired)) \<and>
              sent_list a' = xs @ map JStr ?fired \<and>
              (\<forall>tag \<in> set ?fired. JStr tag \<in> set (sent_list a')) \<and>
              (\<forall>k. k \<noteq> ''notifications_sent'' \<longrightarrow> get a' k = get a k) \<and>
              canvas_id a' = canvas_id a \<and>
              changed = (?fired \<noteq> [])"
    unfolding eq using tags by (auto simp: get_put sent_list_put canvas_id_put)
  from eq iff res show ?thesis by blast
qed

theorem milestone_fires_iff_due_and_new_witness:
  "get (new_row ''u'' essay) ''due_date'' = Some (JStr ''2026-03-10'') \<and>
   iso_days ''2026-03-10'' = Some 739685 \<and> (0::int) \<le> 739685 - 739682 \<and>
   get (new_row ''u'' essay) ''notifications_sent'' = Some (JList []) \<and>
   due_milestones (739685 - 739682) [] = [''3_days''] \<and>
   check_row iso_days 739682 (new_row ''u'' essay) =
     ([notice_for (new_row ''u'' essay) 739685 ''3_days''],
      Inr (put (new_row ''u'' essay) ''notifications_sent'' (JList [JStr ''3_days'']), True)) \<and>
   sent_list (put (new_row ''u'' essay) ''notifications_sent'' (JList [JStr ''3_days''])) = [JStr ''3_days''] \<and>
   get (put (new_row ''u'' essay) ''notifications_sent'' (JList [JStr ''3_days''])) ''title'' =
     Some (JStr ''Essay'')"
proof -
  have h1: "get (new_row ''u'' essay) ''due_date'' = Some (JStr ''2026-03-10'')"
    by (simp add: get_def new_row_def essay_def)
  have h2: "iso_days ''2026-03-10'' = Some 739685" by (simp add: iso_days_def)
  have h3: "(0::int) \<le> 739685 - 739682" by simp
  have h4: "get (new_row ''u'' essay) ''notifications_sent'' = Some (JList [])"
    by (simp add: get_def new_row_def)
  have h4': "get (new_row ''u'' essay) ''notifications_sent'' = None \<and> [] = [] \<or>
             get (new_row ''u'' essay) ''notifications_sent'' = Some (JList [])"
    using h4 by simp
  have d: "due_milestones (739685 - 739682) [] = [''3_days'']"
    by (simp add: due_milestones_def milestones_def)
  have t: "get (new_row ''u'' essay) ''title'' = Some (JStr ''Essay'')"
    by (simp add: get_def new_row_def essay_def)
  note inst = milestone_fires_iff_due_and_new[where fromisoformat=iso_days and s="''2026-03-10''",
      OF h1 h2 h3 h4']
  from inst have "check_row iso_days 739682 (new_row ''u'' essay) =
           (map (notice_for (new_row ''u'' essay) 739685) (due_milestones (739685 - 739682) []),
            Inr (put (new_row ''u'' essay) ''notifications_sent''
                   (JList ([] @ map JStr (due_milestones (739685 - 739682) []))),
                 due_milestones (739685 - 739682) [] \<noteq> []))"
    by blast
  then have run: "check_row iso_days 739682 (new_row ''u'' essay) =
     ([notice_for (new_row ''u'' essay) 739685 ''3_days''],
      Inr (put (new_row ''u'' essay) ''notifications_sent'' (JList [JStr ''3_days'']), True))"
    unfolding d by simp
  from inst have res: "\<And>notices a' changed.
      check_row iso_days 739682 (new_row ''u'' essay) = (notices, Inr (a', changed)) \<Longrightarrow>
      sent_list a' = [] @ map JStr (due_milestones (739685 - 739682) []) \<and>
      (\<forall>k. k \<noteq> ''notifications_sent'' \<longrightarrow> get a' k = get (new_row ''u'' essay) k)"
    by blast
  from res[OF run] have
    "sent_list (put (new_row ''u'' essay) ''notifications_sent'' (JList [JStr ''3_days''])) = [JStr ''3_days''] \<and>
     get (put (new_row ''u'' essay) ''notifications_sent'' (JList [JStr ''3_days''])) ''title'' =
       Some (JStr ''Essay'')"
    unfolding d using t by simp
  with h1 h2 h3 h4 d run show ?thesis by blast
qed

text \<open>
  C7. When a check returns, any number of further checks on the same day, each on
  the rows the previous one left, send nothing and leave the rows as they are; the
  list of tags of every row only grows in the first check; and that check sends at
  most one banner for a row, for a tag that was not in the row's list. The same for
  whole runs on the file: after a run of \<^verbatim>\<open>run_checks\<close> that returns, a run on the file
  it left sends nothing and leaves the file as it is.
\<close>

theorem repeated_checks_fire_once:
  assumes "check_all fromisoformat today rows = (ns, Inr (rows1, changed))"
  shows "repeat_checks fromisoformat today (Suc n) rows = Some (ns # replicate n [], rows1) \<and>
         list_all2 (\<lambda>a a'. set (sent_list a) \<subseteq> set (sent_list a')) rows rows1 \<and>
         ns = concat (map (\<lambda>a. fst (check_row fromisoformat today a)) rows) \<and>
         (\<forall>a \<in> set rows. length (fst (check_row fromisoformat today a)) \<le> 1 \<and>
            (\<forall>x \<in> set (fst (check_row fromisoformat today a)). JStr (n_tag x) \<notin> set (sent_list a))) \<and>
         (\<forall>doc sent doc'.
            run_checks fromisoformat today doc = (sent, None, doc') \<longrightarrow>
              run_checks fromisoformat today doc' = ([], None, doc'))"
proof -
  have again: "check_all fromisoformat today rows1 = ([], Inr (rows1, False))"
    using assms by (rule check_all_again)
  have a: "repeat_checks fromisoformat today (Suc n) rows = Some (ns # replicate n [], rows1)"
    using assms repeat_checks_fixed[OF again, of n] by simp
  from check_all_Inr[OF assms]
  have l: "list_all2 (\<lambda>a a'. \<exists>n c. check_row fromisoformat today a = (n, Inr (a', c))) rows rows1"
    and c: "ns = concat (map (\<lambda>a. fst (check_row fromisoformat today a)) rows)" by auto
  have b: "list_all2 (\<lambda>a a'. set (sent_list a) \<subseteq> set (sent_list a')) rows rows1"
    by (rule list_all2_mono[OF l]) (auto dest: check_row_grows)
  have d: "\<forall>a \<in> set rows. length (fst (check_row fromisoformat today a)) \<le> 1 \<and>
            (\<forall>x \<in> set (fst (check_row fromisoformat today a)). JStr (n_tag x) \<notin> set (sent_list a))"
  proof
    fix a
    from check_row_notices[of fromisoformat today a]
    show "length (fst (check_row fromisoformat today a)) \<le> 1 \<and>
            (\<forall>x \<in> set (fst (check_row fromisoformat today a)). JStr (n_tag x) \<notin> set (sent_list a))"
      by (auto simp: notice_for_def)
  qed
  have e: "\<forall>doc sent doc'.
            run_checks fromisoformat today doc = (sent, None, doc') \<longrightarrow>
              run_checks fromisoformat today doc' = ([], None, doc')"
    using run_checks_again by blast
  from a b c d e show ?thesis by blast
qed

theorem repeated_checks_fire_once_witness:
  "check_all iso_days 739682 [new_row ''u'' essay] =
     ([notice_for (new_row ''u'' essay) 739685 ''3_days''],
      Inr ([put (new_row ''u'' essay) ''notifications_sent'' (JList [JStr ''3_days''])], True)) \<and>
   repeat_checks iso_days 739682 3 [new_row ''u'' essay] =
     Some ([[notice_for (new_row ''u'' essay) 739685 ''3_days''], [], []],
           [put (new_row ''u'' essay) ''notifications_sent'' (JList [JStr ''3_days''])])"
proof -
  have "repeat_checks iso_days 739682 (Suc 2) [new_row ''u'' essay] =
     Some ([notice_for (new_row ''u'' essay) 739685 ''3_days''] # replicate 2 [],
           [put (new_row ''u'' essay) ''notifications_sent'' (JList [JStr ''3_days''])])"
    using repeated_checks_fire_once[OF check_example, of 2] by blast
  then show ?thesis using check_example by (simp add: numeral_3_eq_3 numeral_2_eq_2)
qed

text \<open>
  C8. For a row whose due date is before today the check sends nothing and leaves
  the row as it is, whatever its \<^verbatim>\<open>notifications_sent\<close> holds; in a whole pass that
  returns, the row stands unchanged at its place.
\<close>

theorem past_due_row_skipped:
  assumes "get a ''due_date'' = Some (JStr s)" and "fromisoformat s = Some due" and "due < today"
  shows "check_row fromisoformat today a = ([], Inr (a, False)) \<and>
         (\<forall>rows ns rows' changed i.
            check_all fromisoformat today rows = (ns, Inr (rows', changed)) \<and> i < length rows \<and>
            rows ! i = a \<longrightarrow> rows' ! i = a)"
proof -
  have r: "check_row fromisoformat today a = ([], Inr (a, False))"
    using check_row_past_due[where fromisoformat=fromisoformat and s=s, OF assms] .
  have "rows' ! i = a"
    if "check_all fromisoformat today rows = (ns, Inr (rows', changed))" "i < length rows" "rows ! i = a"
    for rows ns rows' changed i
  proof -
    from check_all_Inr[OF that(1)] that(2)
    have "\<exists>n c. check_row fromisoformat today (rows ! i) = (n, Inr (rows' ! i, c))"
      by (auto simp: list_all2_conv_all_nth)
    then show ?thesis using r that(3) by auto
  qed
  then show ?thesis using r by blast
qed

theorem past_due_row_skipped_witness:
  "get (new_row ''u'' essay) ''due_date'' = Some (JStr ''2026-03-10'') \<and>
   iso_days ''2026-03-10'' = Some 739685 \<and> (739685::int) < 739686 \<and>
   check_row iso_days 739686 (new_row ''u'' essay) = ([], Inr (new_row ''u'' essay, False)) \<and>
   check_all iso_days 739686 [new_row ''u'' essay] = ([], Inr ([new_row ''u'' essay], False))"
proof -
  have h1: "get (new_row ''u'' essay) ''due_date'' = Some (JStr ''2026-03-10'')"
    by (simp add: get_def new_row_def essay_def)
  have h2: "iso_days ''2026-03-10'' = Some 739685" by (simp add: iso_days_def)
  have h3: "(739685::int) < 739686" by simp
  from past_due_row_skipped[where fromisoformat=iso_days and s="''2026-03-10''", OF h1 h2 h3]
  have "check_row iso_days 739686 (new_row ''u'' essay) = ([], Inr (new_row ''u'' essay, False))"
    by blast
  then show ?thesis using h1 h2 h3 by simp
qed







end
